theory Spec2Isabelle
  imports Complex_Main "HOL-Library.AList" "HOL-Library.Log_Nat" "HOL-Library.Multiset"
begin

section \<open>JavaScript primitives used by the storage layer\<close>

subsection \<open>Number values\<close>

text \<open>
  \<^verbatim>\<open>recalculateMonthlyData\<close> converts every amount with \<^verbatim>\<open>Number(t.amount)\<close>, adds the
  results with \<^verbatim>\<open>+\<close> starting from \<^verbatim>\<open>0\<close>, and formats the sum with \<^verbatim>\<open>toFixed(2)\<close>.
  These are operations on IEEE 754 binary64 values. A finite value is represented by the
  rational it denotes. The sign of zero is not represented: a sum that starts from \<^verbatim>\<open>+0\<close>
  is never \<^verbatim>\<open>-0\<close>, and \<^verbatim>\<open>toFixed\<close> prints both zeros alike.
\<close>

datatype number = NaN | Infinity bool | Num rat

definition pow2 :: "int \<Rightarrow> rat" where
  "pow2 e = (if 0 \<le> e then 2 ^ nat e else 1 / 2 ^ nat (- e))"

definition ilog2 :: "rat \<Rightarrow> int" where
  \<comment> \<open>\<open>\<lfloor>log\<^sub>2 a\<rfloor>\<close> for \<open>0 < a\<close>\<close>
  "ilog2 a = (if 1 \<le> a then bitlen \<lfloor>a\<rfloor> - 1 else - bitlen (\<lceil>1 / a\<rceil> - 1))"

definition round_half_even :: "rat \<Rightarrow> int" where
  "round_half_even x =
     (let f = \<lfloor>x\<rfloor>; d = x - of_int f
      in if d < 1 / 2 then f else if 1 / 2 < d then f + 1 else if even f then f else f + 1)"

definition overflow_threshold :: rat where
  \<comment> \<open>\<open>2\<^sup>1\<^sup>0\<^sup>2\<^sup>4\<close>, written out: a value that rounds to it or beyond is infinite\<close>
  "overflow_threshold =
     179769313486231590772930519078902473361797697894230657273430081157732675805500963132708477322407536021120113879871393357658789768814416622492847430639474124377767893424865485276302219601246094119453082952085005768838150682342462881473913110540827237163350510684586298239947245938479716304835356329624224137216"

definition round_double :: "rat \<Rightarrow> number" where
  \<comment> \<open>round to nearest, ties to even, 53 bits of precision, exponents of binary64\<close>
  "round_double x =
     (if x = 0 then Num 0
      else let a = \<bar>x\<bar>;
               q = max (ilog2 a - 52) (- 1074);
               v = of_int (round_half_even (a / pow2 q)) * pow2 q
           in if overflow_threshold \<le> v then Infinity (x < 0)
              else Num (if x < 0 then - v else v))"

fun plus_js :: "number \<Rightarrow> number \<Rightarrow> number" where
  "plus_js NaN y = NaN"
| "plus_js x NaN = NaN"
| "plus_js (Infinity a) (Infinity b) = (if a = b then Infinity a else NaN)"
| "plus_js (Infinity a) (Num y) = Infinity a"
| "plus_js (Num x) (Infinity b) = Infinity b"
| "plus_js (Num x) (Num y) = round_double (x + y)"

subsection \<open>\<^verbatim>\<open>Number(string)\<close>\<close>

text \<open>
  The conversion follows the grammar \<^verbatim>\<open>StringNumericLiteral\<close> of ECMAScript: white space
  around the literal is dropped, the empty string is \<^verbatim>\<open>0\<close>, a literal is a binary, octal or
  hexadecimal integer without sign, or an optionally signed \<^verbatim>\<open>Infinity\<close> or decimal literal
  with optional fraction and exponent; every other string is \<^verbatim>\<open>NaN\<close>. A \<^typ>\<open>char\<close> stands
  for a code unit below 256.
\<close>

definition is_StrWhiteSpaceChar :: "char \<Rightarrow> bool" where
  "is_StrWhiteSpaceChar c \<longleftrightarrow> (of_char c :: int) \<in> {9, 10, 11, 12, 13, 32, 160}"

definition trim :: "string \<Rightarrow> string" where
  "trim s = rev (dropWhile is_StrWhiteSpaceChar (rev (dropWhile is_StrWhiteSpaceChar s)))"

definition digit_of :: "char \<Rightarrow> int option" where
  \<comment> \<open>the value of a hexadecimal digit\<close>
  "digit_of c =
     (let n = (of_char c :: int)
      in if 48 \<le> n \<and> n \<le> 57 then Some (n - 48)
         else if 97 \<le> n \<and> n \<le> 102 then Some (n - 87)
         else if 65 \<le> n \<and> n \<le> 70 then Some (n - 55)
         else None)"

definition is_digit :: "int \<Rightarrow> char \<Rightarrow> bool" where
  "is_digit base c = (case digit_of c of None \<Rightarrow> False | Some d \<Rightarrow> d < base)"

definition digits_value :: "int \<Rightarrow> string \<Rightarrow> int" where
  "digits_value base ds = foldl (\<lambda>n c. base * n + (case digit_of c of None \<Rightarrow> 0 | Some d \<Rightarrow> d)) 0 ds"

definition integer_literal :: "int \<Rightarrow> string \<Rightarrow> number" where
  "integer_literal base ds =
     (if ds \<noteq> [] \<and> list_all (is_digit base) ds
      then round_double (of_int (digits_value base ds)) else NaN)"

definition pow10 :: "int \<Rightarrow> rat" where
  "pow10 e = (if 0 \<le> e then 10 ^ nat e else 1 / 10 ^ nat (- e))"

definition exponent_part :: "string \<Rightarrow> int option" where
  \<comment> \<open>the text after the mantissa: empty, or \<^verbatim>\<open>e\<close>/\<^verbatim>\<open>E\<close>, an optional sign and digits\<close>
  "exponent_part r =
     (case r of
        [] \<Rightarrow> Some 0
      | c # r' \<Rightarrow>
          if c = CHR ''e'' \<or> c = CHR ''E'' then
            (let neg = (r' \<noteq> [] \<and> hd r' = CHR ''-'');
                 ds = (if r' \<noteq> [] \<and> (hd r' = CHR ''-'' \<or> hd r' = CHR ''+'') then tl r' else r')
             in if ds \<noteq> [] \<and> list_all (is_digit 10) ds
                then Some (if neg then - digits_value 10 ds else digits_value 10 ds)
                else None)
          else None)"

definition unsigned_decimal :: "string \<Rightarrow> rat option" where
  \<comment> \<open>the mathematical value of a \<^verbatim>\<open>StrUnsignedDecimalLiteral\<close> other than \<^verbatim>\<open>Infinity\<close>\<close>
  "unsigned_decimal s =
     (let ip = takeWhile (is_digit 10) s;
          r1 = dropWhile (is_digit 10) s;
          dot = (r1 \<noteq> [] \<and> hd r1 = CHR ''.'');
          fp = (if dot then takeWhile (is_digit 10) (tl r1) else []);
          r2 = (if dot then dropWhile (is_digit 10) (tl r1) else r1)
      in if ip = [] \<and> fp = [] then None
         else case exponent_part r2 of
                None \<Rightarrow> None
              | Some e \<Rightarrow>
                  Some (of_int (digits_value 10 (ip @ fp)) * pow10 (e - int (length fp))))"

definition signed_decimal :: "string \<Rightarrow> number" where
  "signed_decimal s =
     (let neg = (s \<noteq> [] \<and> hd s = CHR ''-'');
          u = (if s \<noteq> [] \<and> (hd s = CHR ''-'' \<or> hd s = CHR ''+'') then tl s else s)
      in if u = ''Infinity'' then Infinity neg
         else case unsigned_decimal u of
                None \<Rightarrow> NaN
              | Some x \<Rightarrow> round_double (if neg then - x else x))"

definition Number_js :: "string \<Rightarrow> number" where
  "Number_js s =
     (let t = trim s
      in if t = [] then Num 0
         else if take 2 t \<in> {''0x'', ''0X''} then integer_literal 16 (drop 2 t)
         else if take 2 t \<in> {''0o'', ''0O''} then integer_literal 8 (drop 2 t)
         else if take 2 t \<in> {''0b'', ''0B''} then integer_literal 2 (drop 2 t)
         else signed_decimal t)"

subsection \<open>\<^verbatim>\<open>Number.prototype.toFixed\<close>\<close>

function digits :: "int \<Rightarrow> string" where
  "digits n =
     (if n < 10 then [''0123456789'' ! nat n]
      else digits (n div 10) @ [''0123456789'' ! nat (n mod 10)])"
  by pat_completeness auto
termination
  by (relation "measure nat") auto

declare digits.simps [simp del]

definition ndigits :: "int \<Rightarrow> nat" where
  "ndigits n = length (digits n)"

definition shortest :: "rat \<Rightarrow> nat \<times> int \<times> int" where
  \<comment> \<open>\<^verbatim>\<open>Number::toString\<close>, for an integral \<open>x \<ge> 10\<^sup>2\<^sup>1\<close>: the least \<open>k\<close>, with \<open>s\<close> and \<open>n\<close>,
      such that \<open>s\<close> has \<open>k\<close> digits and \<open>s \<times> 10\<^bsup>n-k\<^esup>\<close> rounds to \<open>x\<close>; among several \<open>s\<close>
      the one nearest to \<open>x\<close>. Seventeen digits always suffice for a binary64 value.\<close>
  "shortest x =
     (let d = int (ndigits \<lfloor>x\<rfloor>);
          cands = concat (map (\<lambda>k. concat (map (\<lambda>n.
                      map (\<lambda>s. (k, s, n))
                        [\<lfloor>x / pow10 (n - int k)\<rfloor>, \<lceil>x / pow10 (n - int k)\<rceil>])
                      [d, d + 1])) [1 ..< 18]);
          ok = filter (\<lambda>(k, s, n). ndigits s = k \<and> 0 < s \<and>
                  round_double (of_int s * pow10 (n - int k)) = Num x) cands
      in case ok of
           [] \<Rightarrow> (17, round_half_even (x / pow10 (d - 17)), d)
         | (k, s, n) # _ \<Rightarrow>
             let same = filter (\<lambda>(k', s', n'). k' = k) ok;
                 dist = (\<lambda>(k', s', n'). \<bar>of_int s' * pow10 (n' - int k') - x\<bar>)
             in fold (\<lambda>c b. if dist c < dist b \<or> (dist c = dist b \<and> even (fst (snd c)))
                               then c else b) same (k, s, n))"

definition toString_large :: "rat \<Rightarrow> string" where
  "toString_large x =
     (case shortest x of
        (k, s, n) \<Rightarrow>
          let ds = digits s
          in (if k = 1 then ds else take 1 ds @ ''.'' @ drop 1 ds) @ ''e+'' @ digits (n - 1))"

text \<open>
  The digits of \<^verbatim>\<open>x.toFixed(f)\<close> for a finite \<open>x = a \<ge> 0\<close>. The first argument tells
  whether \<open>a \<ge> 10\<^sup>2\<^sup>1\<close>, where the result is \<^verbatim>\<open>ToString(x)\<close>. Below that, \<open>n\<close> is the
  integer nearest to \<open>a \<times> 10\<^sup>f\<close>, the larger one of two, and the point goes before its
  last \<open>f\<close> digits.
\<close>

fun fixed_digits :: "bool \<Rightarrow> rat \<Rightarrow> nat \<Rightarrow> string" where
  "fixed_digits True a f = toString_large a"
| "fixed_digits False a f =
     (let n = \<lfloor>a * 10 ^ f + 1 / 2\<rfloor>;
          m = digits n;
          m' = (if f \<noteq> 0 \<and> length m \<le> f then replicate (f + 1 - length m) CHR ''0'' @ m else m);
          k = length m'
      in if f \<noteq> 0 then take (k - f) m' @ ''.'' @ drop (k - f) m' else m')"

definition toFixed :: "number \<Rightarrow> nat \<Rightarrow> string" where
  "toFixed x f =
     (case x of
        NaN \<Rightarrow> ''NaN''
      | Infinity neg \<Rightarrow> (if neg then ''-Infinity'' else ''Infinity'')
      | Num r \<Rightarrow> (if r < 0 then ''-'' else []) @ fixed_digits (10 ^ 21 \<le> \<bar>r\<bar>) \<bar>r\<bar> f)"

section \<open>The schema (\<^verbatim>\<open>shared/schema.ts\<close>)\<close>

text \<open>
  Categories and transaction types are the values of the two \<^verbatim>\<open>z.enum\<close>s through which
  every category and type enters the storage. A \<^verbatim>\<open>Date\<close> is observed through
  \<^verbatim>\<open>getFullYear\<close>, \<^verbatim>\<open>getMonth\<close> (from 0) and \<^verbatim>\<open>getTime\<close>. Decimal columns are strings.
\<close>

type_synonym ID = string

datatype category = plr_nacional | plr_internacional | marca_roupas

datatype type = expense | gain

record Date =
  getFullYear :: int
  getMonth :: int
  getTime :: int

record MonthlyData =
  md_id :: ID
  md_userId :: ID
  md_category :: category
  md_month :: int
  md_year :: int
  md_gastos :: string
  md_receita :: string
  md_createdAt :: Date
  md_updatedAt :: Date

record MonthlyHistory =
  mh_id :: ID
  mh_userId :: ID
  mh_month :: int
  mh_year :: int
  plrNacionalGastos :: string
  plrNacionalReceita :: string
  plrInternacionalGastos :: string
  plrInternacionalReceita :: string
  marcaRoupasGastos :: string
  marcaRoupasReceita :: string
  closedAt :: Date

record Transaction =
  t_id :: ID
  t_userId :: ID
  t_category :: category
  t_type :: type
  t_description :: string
  t_amount :: string
  t_occurredAt :: Date
  t_createdAt :: Date
  t_updatedAt :: Date

record UpdateMonthlyData =
  u_category :: category
  u_gastos :: string
  u_receita :: string

record InsertTransaction =
  i_category :: category
  i_type :: type
  i_description :: string
  i_amount :: string
  i_occurredAt :: "Date option"

text \<open>\<^verbatim>\<open>Partial<InsertTransaction>\<close>: every key may be absent.\<close>

record PartialInsertTransaction =
  p_category :: "category option"
  p_type :: "type option"
  p_description :: "string option"
  p_amount :: "string option"
  p_occurredAt :: "Date option"

section \<open>The storage (\<^verbatim>\<open>server/storage.ts\<close>)\<close>

text \<open>
  A JavaScript \<^verbatim>\<open>Map\<close> is a list of entries in insertion order: \<^verbatim>\<open>set\<close> replaces the value
  of a present key in place and appends an absent one (\<^const>\<open>AList.update\<close>),
  \<^verbatim>\<open>delete\<close> removes the entry (\<^const>\<open>AList.delete\<close>), \<^verbatim>\<open>get\<close> is \<^const>\<open>map_of\<close>
  and \<^verbatim>\<open>values()\<close> lists the values in order (\<open>Map_values\<close>).
\<close>

text \<open>
  The users and the session store take no part in the operations on months and
  transactions and are left out. Fields that several tables name alike carry the initials
  of their table.
\<close>

record MemStorage =
  monthlyData :: "(ID \<times> MonthlyData) list"
  monthlyHistory :: "(ID \<times> MonthlyHistory) list"
  transactions :: "(ID \<times> Transaction) list"

definition Map_values :: "('k \<times> 'v) list \<Rightarrow> 'v list" where
  "Map_values m = map snd m"

definition new_MemStorage :: MemStorage where
  "new_MemStorage = \<lparr>monthlyData = [], monthlyHistory = [], transactions = []\<rparr>"

text \<open>
  \<^verbatim>\<open>Array.prototype.sort\<close> with a comparator is stable; for a comparator that orders by a
  key its result is the stable insertion sort.
\<close>

fun insort_js :: "('a \<Rightarrow> 'a \<Rightarrow> int) \<Rightarrow> 'a \<Rightarrow> 'a list \<Rightarrow> 'a list" where
  "insort_js cmp x [] = [x]"
| "insort_js cmp x (y # ys) = (if cmp x y \<le> 0 then x # y # ys else y # insort_js cmp x ys)"

definition sort_js :: "('a \<Rightarrow> 'a \<Rightarrow> int) \<Rightarrow> 'a list \<Rightarrow> 'a list" where
  "sort_js cmp xs = foldr (insort_js cmp) xs []"

text \<open>\<^verbatim>\<open>xs.slice(0, end)\<close> for an integral \<^verbatim>\<open>end\<close>: a negative end counts from the end.\<close>

definition slice0 :: "int \<Rightarrow> 'a list \<Rightarrow> 'a list" where
  "slice0 e xs =
     (let len = int (length xs);
          final = (if e < 0 then max (len + e) 0 else min e len)
      in take (nat final) xs)"

text \<open>
  Every operation reads the clock with \<^verbatim>\<open>new Date()\<close>; \<open>now\<close> is the value it reads.
  \<^verbatim>\<open>generateId()\<close> returns a random string; the identifiers it returns during an
  operation are arguments of the operation.
\<close>

definition currentMonth :: "Date \<Rightarrow> int" where
  "currentMonth now = getMonth now + 1"

definition currentYear :: "Date \<Rightarrow> int" where
  "currentYear now = getFullYear now"

subsection \<open>\<^verbatim>\<open>getCurrentMonthData\<close>\<close>

fun order :: "category \<Rightarrow> int" where
  "order plr_nacional = 0"
| "order plr_internacional = 1"
| "order marca_roupas = 2"

definition by_category :: "MonthlyData \<Rightarrow> MonthlyData \<Rightarrow> int" where
  \<comment> \<open>the comparator of the sort: the difference of the positions in the fixed order\<close>
  "by_category a b = order (md_category a) - order (md_category b)"

definition categories :: "category list" where
  "categories = [plr_nacional, plr_internacional, marca_roupas]"

definition existingData :: "Date \<Rightarrow> ID \<Rightarrow> MemStorage \<Rightarrow> MonthlyData list" where
  "existingData now userId s =
     filter (\<lambda>d. md_userId d = userId \<and> md_month d = currentMonth now \<and> md_year d = currentYear now)
       (Map_values (monthlyData s))"

text \<open>
  The loop over the three categories. Its state is the rows collected so far, the
  \<^verbatim>\<open>monthlyData\<close> map and the number of identifiers generated so far; \<open>gen k\<close> is the
  result of the \<open>k\<close>-th call of \<^verbatim>\<open>generateId\<close>.
\<close>

fun getCurrentMonthData_loop ::
  "Date \<Rightarrow> (nat \<Rightarrow> ID) \<Rightarrow> ID \<Rightarrow> MonthlyData list \<Rightarrow> category list \<Rightarrow>
   MonthlyData list \<times> (ID \<times> MonthlyData) list \<times> nat \<Rightarrow>
   MonthlyData list \<times> (ID \<times> MonthlyData) list \<times> nat" where
  "getCurrentMonthData_loop now gen userId existing [] acc = acc"
| "getCurrentMonthData_loop now gen userId existing (c # cs) (data, m, k) =
     (case find (\<lambda>d. md_category d = c) existing of
        Some e \<Rightarrow> getCurrentMonthData_loop now gen userId existing cs (data @ [e], m, k)
      | None \<Rightarrow>
          let newData = \<lparr>md_id = gen k, md_userId = userId, md_category = c,
                          md_month = currentMonth now, md_year = currentYear now,
                          md_gastos = ''0'', md_receita = ''0'',
                          md_createdAt = now, md_updatedAt = now\<rparr>
          in getCurrentMonthData_loop now gen userId existing cs
               (data @ [newData], AList.update (gen k) newData m, Suc k))"

definition getCurrentMonthData ::
  "Date \<Rightarrow> (nat \<Rightarrow> ID) \<Rightarrow> ID \<Rightarrow> MemStorage \<Rightarrow> MonthlyData list \<times> MemStorage" where
  "getCurrentMonthData now gen userId s =
     (let existing = existingData now userId s
      in if length existing = 3
         then (sort_js by_category existing, s)
         else case getCurrentMonthData_loop now gen userId existing categories ([], monthlyData s, 0) of
                (data, m, k) \<Rightarrow> (data, s\<lparr>monthlyData := m\<rparr>))"

subsection \<open>\<^verbatim>\<open>updateMonthlyData\<close>\<close>

definition updateMonthlyData ::
  "Date \<Rightarrow> ID \<Rightarrow> ID \<Rightarrow> UpdateMonthlyData \<Rightarrow> MemStorage \<Rightarrow> MonthlyData \<times> MemStorage" where
  "updateMonthlyData now newId userId updateData s =
     (case find (\<lambda>d. md_userId d = userId \<and> md_category d = u_category updateData \<and>
                      md_month d = currentMonth now \<and> md_year d = currentYear now)
             (Map_values (monthlyData s)) of
        Some existing \<Rightarrow>
          let updated = existing\<lparr>md_gastos := u_gastos updateData,
                                 md_receita := u_receita updateData,
                                 md_updatedAt := now\<rparr>
          in (updated, s\<lparr>monthlyData := AList.update (md_id existing) updated (monthlyData s)\<rparr>)
      | None \<Rightarrow>
          let newData = \<lparr>md_id = newId, md_userId = userId, md_category = u_category updateData,
                          md_month = currentMonth now, md_year = currentYear now,
                          md_gastos = u_gastos updateData, md_receita = u_receita updateData,
                          md_createdAt = now, md_updatedAt = now\<rparr>
          in (newData, s\<lparr>monthlyData := AList.update newId newData (monthlyData s)\<rparr>))"

subsection \<open>\<^verbatim>\<open>closeMonth\<close> and \<^verbatim>\<open>getMonthlyHistory\<close>\<close>

definition or_zero :: "string option \<Rightarrow> string" where
  \<comment> \<open>\<^verbatim>\<open>row?.field || "0"\<close>: the field, unless the row is missing or the string is empty\<close>
  "or_zero v = (case v of None \<Rightarrow> ''0'' | Some x \<Rightarrow> if x = [] then ''0'' else x)"

definition closeMonth ::
  "Date \<Rightarrow> (nat \<Rightarrow> ID) \<Rightarrow> ID \<Rightarrow> ID \<Rightarrow> MemStorage \<Rightarrow> MemStorage" where
  "closeMonth now gen historyId userId s =
     (case getCurrentMonthData now gen userId s of
        (currentData, s1) \<Rightarrow>
          let plrNacional = find (\<lambda>d. md_category d = plr_nacional) currentData;
              plrInternacional = find (\<lambda>d. md_category d = plr_internacional) currentData;
              marcaRoupas = find (\<lambda>d. md_category d = marca_roupas) currentData;
              history = \<lparr>mh_id = historyId, mh_userId = userId,
                         mh_month = currentMonth now, mh_year = currentYear now,
                         plrNacionalGastos = or_zero (map_option md_gastos plrNacional),
                         plrNacionalReceita = or_zero (map_option md_receita plrNacional),
                         plrInternacionalGastos = or_zero (map_option md_gastos plrInternacional),
                         plrInternacionalReceita = or_zero (map_option md_receita plrInternacional),
                         marcaRoupasGastos = or_zero (map_option md_gastos marcaRoupas),
                         marcaRoupasReceita = or_zero (map_option md_receita marcaRoupas),
                         closedAt = now\<rparr>
          in s1\<lparr>monthlyHistory := AList.update historyId history (monthlyHistory s1),
                 monthlyData := foldl (\<lambda>m d. AList.delete (md_id d) m) (monthlyData s1) currentData\<rparr>)"

definition by_recency :: "MonthlyHistory \<Rightarrow> MonthlyHistory \<Rightarrow> int" where
  \<comment> \<open>the comparator of the sort: later years first, then later months\<close>
  "by_recency a b = (if mh_year a \<noteq> mh_year b then mh_year b - mh_year a else mh_month b - mh_month a)"

definition getMonthlyHistory :: "ID \<Rightarrow> int option \<Rightarrow> MemStorage \<Rightarrow> MonthlyHistory list" where
  \<comment> \<open>\<open>limit\<close> is an integer (as \<^verbatim>\<open>parseInt\<close> returns; \<^verbatim>\<open>NaN\<close> slices like 0); absent, it is 12\<close>
  "getMonthlyHistory userId limit s =
     slice0 (case limit of None \<Rightarrow> 12 | Some l \<Rightarrow> l)
       (sort_js by_recency (filter (\<lambda>h. mh_userId h = userId) (Map_values (monthlyHistory s))))"

subsection \<open>Transactions\<close>

definition in_current_month :: "Date \<Rightarrow> ID \<Rightarrow> category \<Rightarrow> Transaction \<Rightarrow> bool" where
  "in_current_month now userId c t \<longleftrightarrow>
     t_userId t = userId \<and> t_category t = c \<and>
     getMonth (t_occurredAt t) + 1 = currentMonth now \<and>
     getFullYear (t_occurredAt t) = currentYear now"

definition total_of :: "type \<Rightarrow> Transaction list \<Rightarrow> number" where
  \<comment> \<open>\<^verbatim>\<open>.filter(t => t.type === ty).reduce((sum, t) => sum + Number(t.amount), 0)\<close>\<close>
  "total_of ty ts = foldl (\<lambda>sum t. plus_js sum (Number_js (t_amount t))) (Num 0) (filter (\<lambda>t. t_type t = ty) ts)"

definition recalculateMonthlyData ::
  "Date \<Rightarrow> ID \<Rightarrow> ID \<Rightarrow> category \<Rightarrow> MemStorage \<Rightarrow> MemStorage" where
  "recalculateMonthlyData now newId userId c s =
     (let categoryTransactions = filter (in_current_month now userId c) (Map_values (transactions s));
          totalExpenses = total_of expense categoryTransactions;
          totalGains = total_of gain categoryTransactions
      in snd (updateMonthlyData now newId userId
                \<lparr>u_category = c, u_gastos = toFixed totalExpenses 2, u_receita = toFixed totalGains 2\<rparr> s))"

datatype error = TransactionNotFound

definition createTransaction ::
  "Date \<Rightarrow> ID \<Rightarrow> ID \<Rightarrow> ID \<Rightarrow> InsertTransaction \<Rightarrow> MemStorage \<Rightarrow> Transaction \<times> MemStorage" where
  \<comment> \<open>\<open>newId\<close> is the identifier generated for the transaction, \<open>mdId\<close> the one generated
      by \<^verbatim>\<open>updateMonthlyData\<close> when it creates the totals row\<close>
  "createTransaction now newId mdId userId transaction s =
     (let newTransaction =
            \<lparr>t_id = newId, t_userId = userId, t_category = i_category transaction,
             t_type = i_type transaction, t_description = i_description transaction,
             t_amount = i_amount transaction,
             t_occurredAt = (case i_occurredAt transaction of None \<Rightarrow> now | Some d \<Rightarrow> d),
             t_createdAt = now, t_updatedAt = now\<rparr>;
          s1 = s\<lparr>transactions := AList.update newId newTransaction (transactions s)\<rparr>
      in (newTransaction, recalculateMonthlyData now mdId userId (i_category transaction) s1))"

definition spread :: "Transaction \<Rightarrow> PartialInsertTransaction \<Rightarrow> Transaction" where
  \<comment> \<open>\<^verbatim>\<open>{...existing, ...transaction}\<close>\<close>
  "spread existing transaction =
     existing\<lparr>t_category := (case p_category transaction of None \<Rightarrow> t_category existing | Some v \<Rightarrow> v),
              t_type := (case p_type transaction of None \<Rightarrow> t_type existing | Some v \<Rightarrow> v),
              t_description := (case p_description transaction of None \<Rightarrow> t_description existing | Some v \<Rightarrow> v),
              t_amount := (case p_amount transaction of None \<Rightarrow> t_amount existing | Some v \<Rightarrow> v),
              t_occurredAt := (case p_occurredAt transaction of None \<Rightarrow> t_occurredAt existing | Some v \<Rightarrow> v)\<rparr>"

text \<open>
  \<^verbatim>\<open>updateTransaction\<close> and \<^verbatim>\<open>deleteTransaction\<close> throw before they change anything: the
  result is the error or the value, and the storage after the call.
\<close>

definition updateTransaction ::
  "Date \<Rightarrow> ID \<Rightarrow> ID \<Rightarrow> ID \<Rightarrow> PartialInsertTransaction \<Rightarrow> MemStorage \<Rightarrow>
   (error + Transaction) \<times> MemStorage" where
  "updateTransaction now mdId userId tid transaction s =
     (case map_of (transactions s) tid of
        None \<Rightarrow> (Inl TransactionNotFound, s)
      | Some existing \<Rightarrow>
          if t_userId existing \<noteq> userId then (Inl TransactionNotFound, s)
          else
            let updated = (spread existing transaction)\<lparr>t_updatedAt := now\<rparr>;
                s1 = s\<lparr>transactions := AList.update tid updated (transactions s)\<rparr>
            in (Inr updated, recalculateMonthlyData now mdId userId (t_category existing) s1))"

definition deleteTransaction ::
  "Date \<Rightarrow> ID \<Rightarrow> ID \<Rightarrow> ID \<Rightarrow> MemStorage \<Rightarrow> (error + unit) \<times> MemStorage" where
  "deleteTransaction now mdId userId tid s =
     (case map_of (transactions s) tid of
        None \<Rightarrow> (Inl TransactionNotFound, s)
      | Some existing \<Rightarrow>
          if t_userId existing \<noteq> userId then (Inl TransactionNotFound, s)
          else
            let s1 = s\<lparr>transactions := AList.delete tid (transactions s)\<rparr>
            in (Inr (), recalculateMonthlyData now mdId userId (t_category existing) s1))"

section \<open>Well-formed storages and the properties of the totals\<close>

text \<open>
  In every storage the operations build, a key of \<^verbatim>\<open>monthlyData\<close> occurs once and is the
  \<^verbatim>\<open>id\<close> of its row, and no two rows have the same owner, category, month and year:
  \<^verbatim>\<open>updateMonthlyData\<close> and \<^verbatim>\<open>getCurrentMonthData\<close> create a row only where they have
  found none.
\<close>

definition row_key :: "MonthlyData \<Rightarrow> ID \<times> category \<times> int \<times> int" where
  "row_key d = (md_userId d, md_category d, md_month d, md_year d)"

definition well_formed :: "MemStorage \<Rightarrow> bool" where
  "well_formed s \<longleftrightarrow>
     distinct (map fst (monthlyData s)) \<and>
     list_all (\<lambda>(k, d). md_id d = k) (monthlyData s) \<and>
     distinct (map row_key (Map_values (monthlyData s)))"

text \<open>
  \<^verbatim>\<open>generateId\<close> concatenates two random strings. The identifiers it returns are taken to
  be new: different from each other and from the keys in use.
\<close>

definition fresh :: "(nat \<Rightarrow> ID) \<Rightarrow> MemStorage \<Rightarrow> bool" where
  "fresh gen s \<longleftrightarrow>
     distinct [gen 0, gen 1, gen 2] \<and>
     gen 0 \<notin> set (map fst (monthlyData s)) \<and>
     gen 1 \<notin> set (map fst (monthlyData s)) \<and>
     gen 2 \<notin> set (map fst (monthlyData s))"

definition rows :: "Date \<Rightarrow> ID \<Rightarrow> category \<Rightarrow> MemStorage \<Rightarrow> MonthlyData list" where
  \<comment> \<open>the totals rows of an owner and a category for the current month\<close>
  "rows now userId c s = filter (\<lambda>d. md_category d = c) (existingData now userId s)"

definition month_transactions :: "Date \<Rightarrow> ID \<Rightarrow> category \<Rightarrow> MemStorage \<Rightarrow> Transaction list" where
  \<comment> \<open>the owner's transactions of a category whose occurred-at falls in the current month\<close>
  "month_transactions now userId c s = filter (in_current_month now userId c) (Map_values (transactions s))"

definition totals_match :: "Date \<Rightarrow> ID \<Rightarrow> category \<Rightarrow> MemStorage \<Rightarrow> bool" where
  \<comment> \<open>there is one totals row, and it holds the sums that \<^verbatim>\<open>recalculateMonthlyData\<close>
      computes from the transactions now stored\<close>
  "totals_match now userId c s \<longleftrightarrow>
     (case rows now userId c s of
        [r] \<Rightarrow> md_gastos r = toFixed (total_of expense (month_transactions now userId c s)) 2 \<and>
               md_receita r = toFixed (total_of gain (month_transactions now userId c s)) 2
      | _ \<Rightarrow> False)"

definition zero_row :: "Date \<Rightarrow> ID \<Rightarrow> category \<Rightarrow> ID \<Rightarrow> MonthlyData" where
  \<comment> \<open>the row that \<^verbatim>\<open>getCurrentMonthData\<close> creates for a missing category\<close>
  "zero_row now userId c i =
     \<lparr>md_id = i, md_userId = userId, md_category = c,
      md_month = currentMonth now, md_year = currentYear now,
      md_gastos = ''0'', md_receita = ''0'', md_createdAt = now, md_updatedAt = now\<rparr>"

definition snapshot :: "(MonthlyData \<Rightarrow> string) \<Rightarrow> MonthlyData list \<Rightarrow> string" where
  \<comment> \<open>what \<^verbatim>\<open>closeMonth\<close> archives for a category, given its totals rows\<close>
  "snapshot f rs = (case rs of [] \<Rightarrow> ''0'' | r # _ \<Rightarrow> or_zero (Some (f r)))"

fun history_field :: "category \<Rightarrow> type \<Rightarrow> MonthlyHistory \<Rightarrow> string" where
  "history_field plr_nacional expense = plrNacionalGastos"
| "history_field plr_nacional gain = plrNacionalReceita"
| "history_field plr_internacional expense = plrInternacionalGastos"
| "history_field plr_internacional gain = plrInternacionalReceita"
| "history_field marca_roupas expense = marcaRoupasGastos"
| "history_field marca_roupas gain = marcaRoupasReceita"

text \<open>The total of a type in a totals row.\<close>

fun row_field :: "type \<Rightarrow> MonthlyData \<Rightarrow> string" where
  "row_field expense = md_gastos"
| "row_field gain = md_receita"

text \<open>
  A sequence of creates, updates and deletes by one owner. Every operation reads its own
  clock and receives the identifiers generated during it.
\<close>

datatype operation =
  Create Date ID ID InsertTransaction
| Update Date ID ID PartialInsertTransaction
| Delete Date ID ID

fun apply_operation :: "ID \<Rightarrow> operation \<Rightarrow> MemStorage \<Rightarrow> MemStorage" where
  "apply_operation userId (Create now newId mdId transaction) s =
     snd (createTransaction now newId mdId userId transaction s)"
| "apply_operation userId (Update now mdId tid transaction) s =
     snd (updateTransaction now mdId userId tid transaction s)"
| "apply_operation userId (Delete now mdId tid) s =
     snd (deleteTransaction now mdId userId tid s)"

fun run :: "ID \<Rightarrow> operation list \<Rightarrow> MemStorage \<Rightarrow> MemStorage" where
  "run userId [] s = s"
| "run userId (x # xs) s = run userId xs (apply_operation userId x s)"

definition same_month :: "Date \<Rightarrow> Date \<Rightarrow> bool" where
  "same_month now' now \<longleftrightarrow> currentMonth now' = currentMonth now \<and> currentYear now' = currentYear now"

text \<open>
  An operation is in category \<open>c\<close> of the month of \<open>now\<close> when it happens in that month
  and creates a transaction of category \<open>c\<close>, or updates or deletes a transaction of the
  owner that has category \<open>c\<close>, the update leaving the category as it is.
\<close>

fun in_category :: "Date \<Rightarrow> ID \<Rightarrow> category \<Rightarrow> operation \<Rightarrow> MemStorage \<Rightarrow> bool" where
  "in_category now userId c (Create now' newId mdId transaction) s \<longleftrightarrow>
     same_month now' now \<and> i_category transaction = c"
| "in_category now userId c (Update now' mdId tid transaction) s \<longleftrightarrow>
     same_month now' now \<and>
     (case map_of (transactions s) tid of
        None \<Rightarrow> True
      | Some existing \<Rightarrow>
          t_userId existing \<noteq> userId \<or>
          (t_category existing = c \<and> (p_category transaction = None \<or> p_category transaction = Some c)))"
| "in_category now userId c (Delete now' mdId tid) s \<longleftrightarrow>
     same_month now' now \<and>
     (case map_of (transactions s) tid of
        None \<Rightarrow> True
      | Some existing \<Rightarrow> t_userId existing \<noteq> userId \<or> t_category existing = c)"

fun all_in_category :: "Date \<Rightarrow> ID \<Rightarrow> category \<Rightarrow> operation list \<Rightarrow> MemStorage \<Rightarrow> bool" where
  "all_in_category now userId c [] s \<longleftrightarrow> True"
| "all_in_category now userId c (x # xs) s \<longleftrightarrow>
     in_category now userId c x s \<and> all_in_category now userId c xs (apply_operation userId x s)"

text \<open>
  The storages that the operations build from the empty one, with new identifiers wherever
  \<^verbatim>\<open>getCurrentMonthData\<close> calls \<^verbatim>\<open>generateId\<close>.
\<close>

inductive reachable :: "MemStorage \<Rightarrow> bool" where
  initial: "reachable new_MemStorage"
| read: "reachable s \<Longrightarrow> fresh gen s \<Longrightarrow> reachable (snd (getCurrentMonthData now gen userId s))"
| edit: "reachable s \<Longrightarrow> reachable (snd (updateMonthlyData now newId userId updateData s))"
| close: "reachable s \<Longrightarrow> fresh gen s \<Longrightarrow> reachable (closeMonth now gen historyId userId s)"
| mutate: "reachable s \<Longrightarrow> reachable (apply_operation userId x s)"

text \<open>
  Following the specification's words: the exact decimal sum of the amounts of one type,
  each amount read as the decimal number it writes, without rounding.
\<close>

definition exact_total :: "type \<Rightarrow> Transaction list \<Rightarrow> rat" where
  "exact_total ty ts =
     sum_list (map (\<lambda>t. case unsigned_decimal (t_amount t) of None \<Rightarrow> 0 | Some x \<Rightarrow> x)
                 (filter (\<lambda>t. t_type t = ty) ts))"

text \<open>
  An amount is a whole number of hundredths when it is an unsigned decimal literal whose
  value, times 100, is an integer: \<^verbatim>\<open>"50"\<close>, \<^verbatim>\<open>"50.5"\<close> and \<^verbatim>\<open>"50.50"\<close> are, \<^verbatim>\<open>"1.005"\<close> is
  not. The amounts of one type are within precision when each of them is a whole number
  of hundredths and their number times their exact sum is at most \<open>10\<^sup>1\<^sup>3\<close>: every
  conversion and every addition rounds with a relative error of at most \<open>2\<^sup>-\<^sup>5\<^sup>3\<close>, so
  that the binary64 sum of \<open>n\<close> amounts with exact sum \<open>T\<close> is within \<open>3nT / 2\<^sup>5\<^sup>3\<close> of
  \<open>T\<close>, which under this bound is less than half a hundredth.
\<close>

definition whole_hundredths :: "string \<Rightarrow> bool" where
  "whole_hundredths a \<longleftrightarrow>
     (case unsigned_decimal a of None \<Rightarrow> False | Some x \<Rightarrow> of_int \<lfloor>100 * x\<rfloor> = 100 * x)"

definition within_precision :: "type \<Rightarrow> Transaction list \<Rightarrow> bool" where
  "within_precision ty ts \<longleftrightarrow>
     list_all (\<lambda>t. whole_hundredths (t_amount t)) (filter (\<lambda>t. t_type t = ty) ts) \<and>
     of_nat (length (filter (\<lambda>t. t_type t = ty) ts)) * exact_total ty ts \<le> 10 ^ 13"

definition recent :: "MonthlyHistory \<Rightarrow> MonthlyHistory \<Rightarrow> bool" where
  \<comment> \<open>\<open>a\<close> is of the same month as \<open>b\<close> or of a later one\<close>
  "recent a b \<longleftrightarrow> mh_year b < mh_year a \<or> (mh_year a = mh_year b \<and> mh_month b \<le> mh_month a)"

text \<open>
  The text of a \<^verbatim>\<open>decimal(10, 2)\<close> amount of \<open>c\<close> hundredths: the digits of the integral
  part, a point and two decimals.
\<close>

definition decimal_2 :: "int \<Rightarrow> string" where
  "decimal_2 c =
     digits (c div 100) @ ''.'' @
     [''0123456789'' ! nat (c div 10 mod 10), ''0123456789'' ! nat (c mod 10)]"

section \<open>Example data\<close>

definition november :: Date where
  "november = \<lparr>getFullYear = 2026, getMonth = 10, getTime = 1793707200000\<rparr>"

definition later_in_november :: Date where
  "later_in_november = \<lparr>getFullYear = 2026, getMonth = 10, getTime = 1794000000000\<rparr>"

definition ids :: "nat \<Rightarrow> ID" where
  "ids k = (if k = 0 then ''g0'' else if k = 1 then ''g1'' else ''g2'')"

definition more_ids :: "nat \<Rightarrow> ID" where
  "more_ids k = (if k = 0 then ''k0'' else if k = 1 then ''k1'' else ''k2'')"

definition purchase :: "string \<Rightarrow> InsertTransaction" where
  "purchase amount =
     \<lparr>i_category = plr_nacional, i_type = expense, i_description = ''stock'',
      i_amount = amount, i_occurredAt = None\<rparr>"

definition sale :: InsertTransaction where
  "sale = \<lparr>i_category = plr_nacional, i_type = gain, i_description = ''order'',
            i_amount = ''120.00'', i_occurredAt = None\<rparr>"

definition recategorise :: PartialInsertTransaction where
  "recategorise = \<lparr>p_category = Some marca_roupas, p_type = None, p_description = None,
                     p_amount = None, p_occurredAt = None\<rparr>"

definition reprice :: PartialInsertTransaction where
  "reprice = \<lparr>p_category = None, p_type = None, p_description = None,
               p_amount = Some ''75.50'', p_occurredAt = None\<rparr>"

definition boutique_sale :: InsertTransaction where
  "boutique_sale = \<lparr>i_category = marca_roupas, i_type = gain, i_description = ''dress'',
                     i_amount = ''19.90'', i_occurredAt = None\<rparr>"


definition one_purchase :: MemStorage where
  \<comment> \<open>the storage after one expense of 50.00 by \<open>u1\<close>\<close>
  "one_purchase = snd (createTransaction november ''t1'' ''m1'' ''u1'' (purchase ''50.00'') new_MemStorage)"

definition dashboard_read :: MemStorage where
  \<comment> \<open>the storage after \<open>u1\<close> has then read the current month\<close>
  "dashboard_read = snd (getCurrentMonthData november ids ''u1'' one_purchase)"

text \<open>Further operations of \<open>u1\<close> in the category \<^verbatim>\<open>plr_nacional\<close>, later in the month.\<close>

definition bookkeeping :: "operation list" where
  "bookkeeping =
     [Create later_in_november ''t2'' ''m2'' (purchase ''0.20''),
      Create later_in_november ''t3'' ''m3'' sale,
      Create later_in_november ''t4'' ''m4'' (purchase ''50.00''),
      Update later_in_november ''m5'' ''t4'' reprice,
      Delete later_in_november ''m6'' ''t1'']"

definition archive :: "ID \<Rightarrow> int \<Rightarrow> int \<Rightarrow> ID \<times> MonthlyHistory" where
  "archive i y m =
     (i, \<lparr>mh_id = i, mh_userId = ''u1'', mh_month = m, mh_year = y,
          plrNacionalGastos = ''0'', plrNacionalReceita = ''0'',
          plrInternacionalGastos = ''0'', plrInternacionalReceita = ''0'',
          marcaRoupasGastos = ''0'', marcaRoupasReceita = ''0'', closedAt = november\<rparr>)"

definition five_months :: MemStorage where
  "five_months =
     new_MemStorage\<lparr>monthlyHistory :=
       [archive ''h1'' 2026 8, archive ''h2'' 2025 12, archive ''h3'' 2026 10,
        archive ''h4'' 2026 7, archive ''h5'' 2026 9]\<rparr>"

section \<open>Buckets of rows and the sort by category\<close>

lemma find_bucket: "find P xs = (case filter P xs of [] \<Rightarrow> None | x # _ \<Rightarrow> Some x)"
  by (induction xs) auto

lemma mset_buckets:
  "mset xs = mset (filter (\<lambda>d. md_category d = plr_nacional) xs) +
             mset (filter (\<lambda>d. md_category d = plr_internacional) xs) +
             mset (filter (\<lambda>d. md_category d = marca_roupas) xs)"
proof (induction xs)
  case Nil
  then show ?case by simp
next
  case (Cons x xs)
  then show ?case by (cases "md_category x") simp_all
qed

lemma insort_js_skip:
  "\<forall>a \<in> set as. 0 < cmp x a \<Longrightarrow> insort_js cmp x (as @ bs) = as @ insort_js cmp x bs"
  by (induction as) auto

lemma insort_js_front:
  "\<forall>b \<in> set bs. cmp x b \<le> 0 \<Longrightarrow> insort_js cmp x bs = x # bs"
  by (cases bs) auto

lemma sort_js_buckets:
  "sort_js by_category xs =
     filter (\<lambda>d. md_category d = plr_nacional) xs @
     filter (\<lambda>d. md_category d = plr_internacional) xs @
     filter (\<lambda>d. md_category d = marca_roupas) xs"
proof (induction xs)
  case Nil
  then show ?case by (simp add: sort_js_def)
next
  case (Cons x xs)
  let ?N = "filter (\<lambda>d. md_category d = plr_nacional) xs"
  let ?I = "filter (\<lambda>d. md_category d = plr_internacional) xs"
  let ?R = "filter (\<lambda>d. md_category d = marca_roupas) xs"
  have step: "sort_js by_category (x # xs) = insort_js by_category x (?N @ ?I @ ?R)"
    using Cons by (simp add: sort_js_def)
  show ?case
  proof (cases "md_category x")
    case plr_nacional
    have "insort_js by_category x (?N @ ?I @ ?R) = x # ?N @ ?I @ ?R"
      by (rule insort_js_front) (auto simp: plr_nacional by_category_def)
    then show ?thesis using step plr_nacional by simp
  next
    case plr_internacional
    have "insort_js by_category x (?N @ ?I @ ?R) = ?N @ insort_js by_category x (?I @ ?R)"
      by (rule insort_js_skip) (auto simp: plr_internacional by_category_def)
    moreover have "insort_js by_category x (?I @ ?R) = x # ?I @ ?R"
      by (rule insort_js_front) (auto simp: plr_internacional by_category_def)
    ultimately show ?thesis using step plr_internacional by simp
  next
    case marca_roupas
    have "insort_js by_category x ((?N @ ?I) @ ?R) = (?N @ ?I) @ insort_js by_category x ?R"
      by (rule insort_js_skip) (auto simp: marca_roupas by_category_def)
    moreover have "insort_js by_category x ?R = x # ?R"
      by (rule insort_js_front) (auto simp: marca_roupas by_category_def)
    ultimately show ?thesis using step marca_roupas by simp
  qed
qed

lemma distinct_map_filter_le1:
  "distinct (map f xs) \<Longrightarrow> length (filter (\<lambda>x. f x = k) xs) \<le> 1"
proof (induction xs)
  case Nil
  then show ?case by simp
next
  case (Cons x xs)
  show ?case
  proof (cases "f x = k")
    case True
    with Cons.prems have "filter (\<lambda>x. f x = k) xs = []"
      by (auto simp: filter_empty_conv) (metis imageI)
    with True show ?thesis by simp
  next
    case False
    with Cons show ?thesis by simp
  qed
qed

lemma rows_eq:
  "rows now u c s =
     filter (\<lambda>d. row_key d = (u, c, currentMonth now, currentYear now)) (Map_values (monthlyData s))"
  by (auto simp: rows_def existingData_def row_key_def intro: filter_cong)

lemma rows_le1: "well_formed s \<Longrightarrow> length (rows now u c s) \<le> 1"
  unfolding rows_eq well_formed_def by (blast intro: distinct_map_filter_le1)

lemma rows_cases:
  assumes "well_formed s"
  obtains "rows now u c s = []" | r where "rows now u c s = [r]"
  using rows_le1 [OF assms, of now u c]
  by (cases "rows now u c s"; cases "tl (rows now u c s)") auto

section \<open>The result of reading the current month\<close>

lemma existing_id_in_keys:
  "well_formed s \<Longrightarrow> d \<in> set (existingData now u s) \<Longrightarrow> md_id d \<in> set (map fst (monthlyData s))"
  by (force simp: well_formed_def existingData_def Map_values_def list_all_iff)

lemma rows_mem:
  "d \<in> set (rows now u c s) \<Longrightarrow>
     d \<in> set (existingData now u s) \<and> md_category d = c \<and> md_userId d = u \<and>
     md_month d = currentMonth now \<and> md_year d = currentYear now"
  by (auto simp: rows_def existingData_def)

lemma find_rows:
  "find (\<lambda>d. md_category d = c) (existingData now u s) =
     (case rows now u c s of [] \<Rightarrow> None | x # _ \<Rightarrow> Some x)"
  by (simp add: rows_def find_bucket)

lemma mset_existing:
  "mset (existingData now u s) =
     mset (rows now u plr_nacional s) + mset (rows now u plr_internacional s) +
     mset (rows now u marca_roupas s)"
  unfolding rows_def by (rule mset_buckets)

lemma existingData_append:
  "existingData now u (s\<lparr>monthlyData := monthlyData s @ m\<rparr>) =
     existingData now u s @
     filter (\<lambda>d. md_userId d = u \<and> md_month d = currentMonth now \<and> md_year d = currentYear now)
       (Map_values m)"
  by (simp add: existingData_def Map_values_def)

lemma update_fresh: "k \<notin> fst ` set m \<Longrightarrow> AList.update k v m = m @ [(k, v)]"
  by (induction m) auto

lemma getCurrentMonthData_result:
  assumes wf: "well_formed s" and fr: "fresh gen s"
  shows "map md_category (fst (getCurrentMonthData now gen u s)) =
           [plr_nacional, plr_internacional, marca_roupas] \<and>
         snd (getCurrentMonthData now gen u s) =
           s\<lparr>monthlyData := monthlyData s @
                map (\<lambda>d. (md_id d, d))
                  (filter (\<lambda>d. d \<notin> set (existingData now u s)) (fst (getCurrentMonthData now gen u s)))\<rparr> \<and>
         (\<forall>d \<in> set (fst (getCurrentMonthData now gen u s)).
            md_userId d = u \<and> md_month d = currentMonth now \<and> md_year d = currentYear now \<and>
            (d \<in> set (existingData now u s) \<or> (md_gastos d = ''0'' \<and> md_receita d = ''0''))) \<and>
         mset (existingData now u (snd (getCurrentMonthData now gen u s))) =
           mset (fst (getCurrentMonthData now gen u s))"
proof -
  let ?ex = "existingData now u s"
  note ms = mset_existing [of now u s]
  have len: "length ?ex = length (rows now u plr_nacional s) + length (rows now u plr_internacional s) +
      length (rows now u marca_roupas s)"
    using arg_cong [OF ms, of size] by simp
  have st: "set ?ex = set (rows now u plr_nacional s) \<union> set (rows now u plr_internacional s) \<union>
      set (rows now u marca_roupas s)"
    using arg_cong [OF ms, of set_mset] by simp
  have keys: "\<And>d. d \<in> set ?ex \<Longrightarrow> md_id d \<in> set (map fst (monthlyData s))"
    using existing_id_in_keys [OF wf] by blast
  have newnot: "\<And>d. md_id d \<notin> fst ` set (monthlyData s) \<Longrightarrow> (d \<in> set ?ex) = False"
    using keys by auto
  from fr have g: "gen 0 \<notin> fst ` set (monthlyData s)" "gen (Suc 0) \<notin> fst ` set (monthlyData s)"
    "gen (Suc (Suc 0)) \<notin> fst ` set (monthlyData s)" "gen 0 \<noteq> gen (Suc 0)"
    "gen 0 \<noteq> gen (Suc (Suc 0))" "gen (Suc 0) \<noteq> gen (Suc (Suc 0))"
    "gen (Suc 0) \<noteq> gen 0" "gen (Suc (Suc 0)) \<noteq> gen 0" "gen (Suc (Suc 0)) \<noteq> gen (Suc 0)"
    by (auto simp: fresh_def numeral_2_eq_2)
  have N: "rows now u plr_nacional s = [] \<or> (\<exists>a. rows now u plr_nacional s = [a])"
    by (rule rows_cases [OF wf, of now u plr_nacional]) auto
  have I: "rows now u plr_internacional s = [] \<or> (\<exists>a. rows now u plr_internacional s = [a])"
    by (rule rows_cases [OF wf, of now u plr_internacional]) auto
  have R: "rows now u marca_roupas s = [] \<or> (\<exists>a. rows now u marca_roupas s = [a])"
    by (rule rows_cases [OF wf, of now u marca_roupas]) auto
  have mem: "\<And>c d. rows now u c s = [d] \<Longrightarrow>
     d \<in> set ?ex \<and> md_category d = c \<and> md_userId d = u \<and>
     md_month d = currentMonth now \<and> md_year d = currentYear now"
    by (metis rows_mem list.set_intros(1))
  show ?thesis
    using N I R
    apply (elim disjE exE)
    apply (simp_all add: getCurrentMonthData_def Let_def find_rows categories_def len update_fresh g
       existingData_append Map_values_def sort_js_buckets rows_def [symmetric] ms newnot)
    apply (auto dest!: mem)
    done
qed

lemma existingData_same_month:
  "currentMonth now' = currentMonth now \<Longrightarrow> currentYear now' = currentYear now \<Longrightarrow>
     existingData now' u s = existingData now u s"
  by (simp add: existingData_def)

lemma mset_singleton_list: "mset xs = {#x#} \<Longrightarrow> xs = [x]"
  by (cases xs) auto

lemma getCurrentMonthData_again:
  assumes wf: "well_formed s" and fr: "fresh gen s"
    and m: "currentMonth now' = currentMonth now" and y: "currentYear now' = currentYear now"
  shows "getCurrentMonthData now' gen' u (snd (getCurrentMonthData now gen u s)) =
           getCurrentMonthData now gen u s"
proof -
  obtain data s' where r: "getCurrentMonthData now gen u s = (data, s')"
    by (cases "getCurrentMonthData now gen u s")
  from getCurrentMonthData_result [OF wf fr, of now u, unfolded r fst_conv snd_conv]
  have cats: "map md_category data = [plr_nacional, plr_internacional, marca_roupas]"
    and ms: "mset (existingData now u s') = mset data"
    by blast+
  from cats obtain a b c where data: "data = [a, b, c]"
    and c: "md_category a = plr_nacional" "md_category b = plr_internacional" "md_category c = marca_roupas"
    by (auto simp: map_eq_Cons_conv)
  let ?ex = "existingData now u s'"
  have len: "length ?ex = 3"
    using arg_cong [OF ms, of size] data by simp
  have "filter (\<lambda>d. md_category d = plr_nacional) ?ex = [a]"
    "filter (\<lambda>d. md_category d = plr_internacional) ?ex = [b]"
    "filter (\<lambda>d. md_category d = marca_roupas) ?ex = [c]"
    by (rule mset_singleton_list, simp add: ms data c)+
  then have "sort_js by_category ?ex = data"
    by (simp add: sort_js_buckets data)
  then show ?thesis
    using len by (simp add: r getCurrentMonthData_def [of now' gen' u s'] existingData_same_month [OF m y])
qed

section \<open>Writing a totals row\<close>

lemma update_mem: "(k, v) \<in> set (AList.update k v m)"
  by (induction m) auto

lemma update_set_subset: "set (AList.update k v m) \<subseteq> insert (k, v) (set m)"
  by (induction m) auto

lemma update_ids:
  "list_all (\<lambda>(k, d). g d = k) m \<Longrightarrow> g v = k \<Longrightarrow> list_all (\<lambda>(k, d). g d = k) (AList.update k v m)"
  by (induction m) auto

lemma update_new_key_distinct:
  "distinct (map f (map snd m)) \<Longrightarrow> f v \<notin> f ` snd ` set m \<Longrightarrow>
     distinct (map f (map snd (AList.update k v m)))"
proof (induction m)
  case Nil
  then show ?case by simp
next
  case (Cons p m)
  have "f (snd p) \<notin> f ` snd ` set (AList.update k v m)"
    using Cons.prems update_set_subset [of k v m] by (auto simp: image_iff)
  with Cons show ?case by (cases p) auto
qed

lemma update_same_key:
  "distinct (map fst m) \<Longrightarrow> (k, e) \<in> set m \<Longrightarrow> f e' = f e \<Longrightarrow>
     map f (map snd (AList.update k e' m)) = map f (map snd m)"
  by (induction m) (auto simp: image_iff)

lemma find_SomeD: "find P xs = Some x \<Longrightarrow> x \<in> set xs \<and> P x"
  by (induction xs) (auto split: if_splits)

lemma find_NoneD: "find P xs = None \<Longrightarrow> x \<in> set xs \<Longrightarrow> \<not> P x"
  by (induction xs) (auto split: if_splits)

lemma le1_singleton: "length xs \<le> 1 \<Longrightarrow> x \<in> set xs \<Longrightarrow> xs = [x]"
  by (cases xs) auto

lemma updateMonthlyData_wf:
  assumes wf: "well_formed s"
  shows "well_formed (snd (updateMonthlyData now newId u upd s))"
proof (cases "find (\<lambda>d. md_userId d = u \<and> md_category d = u_category upd \<and>
          md_month d = currentMonth now \<and> md_year d = currentYear now) (Map_values (monthlyData s))")
  case None
  let ?new = "\<lparr>md_id = newId, md_userId = u, md_category = u_category upd,
       md_month = currentMonth now, md_year = currentYear now, md_gastos = u_gastos upd,
       md_receita = u_receita upd, md_createdAt = now, md_updatedAt = now\<rparr>"
  have "row_key ?new \<notin> row_key ` snd ` set (monthlyData s)"
    using find_NoneD [OF None] by (force simp: row_key_def Map_values_def)
  with wf have "distinct (map row_key (map snd (AList.update newId ?new (monthlyData s))))"
    by (intro update_new_key_distinct) (simp_all add: well_formed_def Map_values_def)
  with wf None show ?thesis
    by (simp add: updateMonthlyData_def well_formed_def Map_values_def distinct_update update_ids Let_def)
next
  case (Some e)
  let ?upd = "e\<lparr>md_gastos := u_gastos upd, md_receita := u_receita upd, md_updatedAt := now\<rparr>"
  from find_SomeD [OF Some] have e: "e \<in> set (Map_values (monthlyData s))" by simp
  with wf have mem: "(md_id e, e) \<in> set (monthlyData s)"
    by (auto simp: well_formed_def Map_values_def list_all_iff)
  from wf mem have "map row_key (map snd (AList.update (md_id e) ?upd (monthlyData s))) =
      map row_key (map snd (monthlyData s))"
    by (intro update_same_key [where e = e]) (simp_all add: well_formed_def row_key_def)
  with wf Some show ?thesis
    by (simp add: updateMonthlyData_def well_formed_def Map_values_def distinct_update update_ids Let_def)
qed

lemma updateMonthlyData_rows:
  assumes wf: "well_formed s"
  shows "rows now u (u_category upd) (snd (updateMonthlyData now newId u upd s)) =
           [fst (updateMonthlyData now newId u upd s)] \<and>
         md_gastos (fst (updateMonthlyData now newId u upd s)) = u_gastos upd \<and>
         md_receita (fst (updateMonthlyData now newId u upd s)) = u_receita upd \<and>
         transactions (snd (updateMonthlyData now newId u upd s)) = transactions s \<and>
         monthlyHistory (snd (updateMonthlyData now newId u upd s)) = monthlyHistory s"
proof -
  let ?r = "fst (updateMonthlyData now newId u upd s)"
  let ?s = "snd (updateMonthlyData now newId u upd s)"
  have in_rows: "?r \<in> set (rows now u (u_category upd) ?s)"
    by (auto simp: updateMonthlyData_def rows_def existingData_def Map_values_def Let_def image_iff
        split: option.splits dest: find_SomeD intro!: bexI [OF _ update_mem])
  have "rows now u (u_category upd) ?s = [?r]"
    by (rule le1_singleton [OF rows_le1 [OF updateMonthlyData_wf [OF wf]] in_rows])
  then show ?thesis
    by (auto simp: updateMonthlyData_def Let_def split: option.splits)
qed

section \<open>Recomputing the totals\<close>

lemma recalculateMonthlyData_wf:
  "well_formed s \<Longrightarrow> well_formed (recalculateMonthlyData now newId u c s)"
  by (simp add: recalculateMonthlyData_def Let_def updateMonthlyData_wf)

lemma recalculateMonthlyData_frame:
  "well_formed s \<Longrightarrow>
     transactions (recalculateMonthlyData now newId u c s) = transactions s \<and>
     monthlyHistory (recalculateMonthlyData now newId u c s) = monthlyHistory s"
  using updateMonthlyData_rows [of s now u _ newId]
  by (simp add: recalculateMonthlyData_def Let_def)

lemma recalculateMonthlyData_row:
  assumes "well_formed s"
  shows "\<exists>r. rows now u c (recalculateMonthlyData now newId u c s) = [r] \<and>
           md_gastos r = toFixed (total_of expense (month_transactions now u c s)) 2 \<and>
           md_receita r = toFixed (total_of gain (month_transactions now u c s)) 2"
  using updateMonthlyData_rows [OF assms, of now u
      "\<lparr>u_category = c,
        u_gastos = toFixed (total_of expense (month_transactions now u c s)) 2,
        u_receita = toFixed (total_of gain (month_transactions now u c s)) 2\<rparr>" newId]
  by (simp add: recalculateMonthlyData_def Let_def month_transactions_def)

lemma recalculateMonthlyData_totals_match:
  assumes "well_formed s"
  shows "totals_match now u c (recalculateMonthlyData now newId u c s)"
proof -
  from recalculateMonthlyData_row [OF assms, of now u c newId] obtain r where
    "rows now u c (recalculateMonthlyData now newId u c s) = [r]"
    "md_gastos r = toFixed (total_of expense (month_transactions now u c s)) 2"
    "md_receita r = toFixed (total_of gain (month_transactions now u c s)) 2"
    by blast
  moreover have "month_transactions now u c (recalculateMonthlyData now newId u c s) =
      month_transactions now u c s"
    using recalculateMonthlyData_frame [OF assms, of now newId u c]
    by (simp add: month_transactions_def)
  ultimately show ?thesis by (simp add: totals_match_def)
qed

lemma well_formed_transactions [simp]:
  "well_formed (s\<lparr>transactions := ts\<rparr>) = well_formed s"
  by (simp add: well_formed_def)

lemma well_formed_history [simp]:
  "well_formed (s\<lparr>monthlyHistory := hs\<rparr>) = well_formed s"
  by (simp add: well_formed_def)

lemma createTransaction_totals_match:
  "well_formed s \<Longrightarrow> totals_match now u (i_category tr) (snd (createTransaction now newId mdId u tr s))"
  by (simp add: createTransaction_def Let_def recalculateMonthlyData_totals_match)

lemma updateTransaction_totals_match:
  "well_formed s \<Longrightarrow> map_of (transactions s) tid = Some e \<Longrightarrow> t_userId e = u \<Longrightarrow>
     totals_match now u (t_category e) (snd (updateTransaction now mdId u tid ptr s))"
  by (simp add: updateTransaction_def Let_def recalculateMonthlyData_totals_match)

lemma deleteTransaction_totals_match:
  "well_formed s \<Longrightarrow> map_of (transactions s) tid = Some e \<Longrightarrow> t_userId e = u \<Longrightarrow>
     totals_match now u (t_category e) (snd (deleteTransaction now mdId u tid s))"
  by (simp add: deleteTransaction_def Let_def recalculateMonthlyData_totals_match)

lemma apply_operation_wf: "well_formed s \<Longrightarrow> well_formed (apply_operation u x s)"
  by (cases x)
    (auto simp: createTransaction_def updateTransaction_def deleteTransaction_def Let_def
      recalculateMonthlyData_wf split: option.splits)

lemma totals_match_same_month:
  "same_month now' now \<Longrightarrow> totals_match now' u c s = totals_match now u c s"
proof -
  assume sm: "same_month now' now"
  then have "in_current_month now' u c = in_current_month now u c"
    by (simp add: fun_eq_iff same_month_def in_current_month_def)
  then have "month_transactions now' u c s = month_transactions now u c s"
    by (simp add: month_transactions_def)
  moreover from sm have "rows now' u c s = rows now u c s"
    by (simp add: same_month_def rows_def existingData_def)
  ultimately show ?thesis by (simp only: totals_match_def)
qed

lemma apply_operation_totals_match:
  assumes wf: "well_formed s" and tm: "totals_match now u c s" and inc: "in_category now u c x s"
  shows "totals_match now u c (apply_operation u x s)"
proof (cases x)
  case (Create now' newId mdId tr)
  with inc have "same_month now' now" "i_category tr = c" by simp_all
  with createTransaction_totals_match [OF wf, of now' u tr newId mdId] Create show ?thesis
    by (simp add: totals_match_same_month)
next
  case (Update now' mdId tid ptr)
  with inc have sm: "same_month now' now" by simp
  show ?thesis
  proof (cases "map_of (transactions s) tid")
    case None
    with tm Update show ?thesis by (simp add: updateTransaction_def)
  next
    case (Some e)
    show ?thesis
    proof (cases "t_userId e = u")
      case True
      with inc Update Some have "t_category e = c" by simp
      with updateTransaction_totals_match [OF wf Some True, of now' mdId ptr] Update sm
      show ?thesis by (simp add: totals_match_same_month)
    next
      case False
      with tm Update Some show ?thesis by (simp add: updateTransaction_def)
    qed
  qed
next
  case (Delete now' mdId tid)
  with inc have sm: "same_month now' now" by simp
  show ?thesis
  proof (cases "map_of (transactions s) tid")
    case None
    with tm Delete show ?thesis by (simp add: deleteTransaction_def)
  next
    case (Some e)
    show ?thesis
    proof (cases "t_userId e = u")
      case True
      with inc Delete Some have "t_category e = c" by simp
      with deleteTransaction_totals_match [OF wf Some True, of now' mdId] Delete sm
      show ?thesis by (simp add: totals_match_same_month)
    next
      case False
      with tm Delete Some show ?thesis by (simp add: deleteTransaction_def)
    qed
  qed
qed

lemma run_totals_match:
  "well_formed s \<Longrightarrow> totals_match now u c s \<Longrightarrow> all_in_category now u c xs s \<Longrightarrow>
     totals_match now u c (run u xs s)"
proof (induction xs arbitrary: s)
  case Nil
  then show ?case by simp
next
  case (Cons x xs)
  then show ?case
    by (simp add: apply_operation_wf apply_operation_totals_match)
qed

section \<open>The rows of the other categories\<close>

lemma filter_update_other:
  "map_of m k = Some e \<Longrightarrow> \<not> P e \<Longrightarrow> \<not> P v \<Longrightarrow>
     filter P (map snd (AList.update k v m)) = filter P (map snd m)"
  by (induction m) (auto split: if_splits)

lemma updateMonthlyData_other_rows:
  assumes wf: "well_formed s" and new: "newId \<notin> fst ` set (monthlyData s)"
    and c: "c \<noteq> u_category upd"
  shows "rows now' u' c (snd (updateMonthlyData now newId u upd s)) = rows now' u' c s"
proof (cases "find (\<lambda>d. md_userId d = u \<and> md_category d = u_category upd \<and>
    md_month d = currentMonth now \<and> md_year d = currentYear now) (Map_values (monthlyData s))")
  case None
  with new c show ?thesis
    by (simp add: updateMonthlyData_def Let_def rows_def existingData_def Map_values_def update_fresh)
next
  case (Some e)
  let ?P = "\<lambda>d. md_category d = c \<and> md_userId d = u' \<and> md_month d = currentMonth now' \<and>
    md_year d = currentYear now'"
  from find_SomeD [OF Some] have e: "e \<in> set (Map_values (monthlyData s))"
    "md_category e = u_category upd" by simp_all
  with wf have "(md_id e, e) \<in> set (monthlyData s)"
    by (auto simp: well_formed_def Map_values_def list_all_iff)
  with wf have "map_of (monthlyData s) (md_id e) = Some e"
    by (simp add: well_formed_def)
  then have "filter ?P (map snd (AList.update (md_id e)
      (e\<lparr>md_gastos := u_gastos upd, md_receita := u_receita upd, md_updatedAt := now\<rparr>) (monthlyData s))) =
    filter ?P (map snd (monthlyData s))"
    using e(2) c by (intro filter_update_other) auto
  with Some show ?thesis
    by (simp add: updateMonthlyData_def Let_def rows_def existingData_def Map_values_def conj_commute conj_left_commute)
qed

lemma createTransaction_other_rows:
  assumes "well_formed s" and "mdId \<notin> fst ` set (monthlyData s)" and "c \<noteq> i_category tr"
  shows "rows now' u' c (snd (createTransaction now newId mdId u tr s)) = rows now' u' c s"
proof -
  have "rows now' u' c (snd (updateMonthlyData now mdId u upd (s\<lparr>transactions := ts\<rparr>))) = rows now' u' c s"
    if "u_category upd = i_category tr" for upd ts
    using updateMonthlyData_other_rows [of "s\<lparr>transactions := ts\<rparr>" mdId c upd now' u' now u] assms that
    by (simp add: rows_def existingData_def)
  then show ?thesis
    by (simp add: createTransaction_def recalculateMonthlyData_def Let_def)
qed

section \<open>Well-formedness after a read and after a close\<close>

lemma rows_empty_key:
  "rows now u c s = [] \<Longrightarrow> (k, d) \<in> set (monthlyData s) \<Longrightarrow> md_userId d = u \<Longrightarrow>
     md_month d = currentMonth now \<Longrightarrow> md_year d = currentYear now \<Longrightarrow> md_category d \<noteq> c"
  unfolding rows_eq by (force simp: filter_empty_conv Map_values_def row_key_def)

lemma getCurrentMonthData_wf:
  assumes wf: "well_formed s" and fr: "fresh gen s"
  shows "well_formed (snd (getCurrentMonthData now gen u s))"
proof -
  from fr have g: "gen 0 \<notin> fst ` set (monthlyData s)" "gen (Suc 0) \<notin> fst ` set (monthlyData s)"
    "gen (Suc (Suc 0)) \<notin> fst ` set (monthlyData s)" "gen 0 \<noteq> gen (Suc 0)"
    "gen 0 \<noteq> gen (Suc (Suc 0))" "gen (Suc 0) \<noteq> gen (Suc (Suc 0))"
    "gen (Suc 0) \<noteq> gen 0" "gen (Suc (Suc 0)) \<noteq> gen 0" "gen (Suc (Suc 0)) \<noteq> gen (Suc 0)"
    by (auto simp: fresh_def numeral_2_eq_2)
  have N: "rows now u plr_nacional s = [] \<or> (\<exists>a. rows now u plr_nacional s = [a])"
    by (rule rows_cases [OF wf, of now u plr_nacional]) auto
  have I: "rows now u plr_internacional s = [] \<or> (\<exists>a. rows now u plr_internacional s = [a])"
    by (rule rows_cases [OF wf, of now u plr_internacional]) auto
  have R: "rows now u marca_roupas s = [] \<or> (\<exists>a. rows now u marca_roupas s = [a])"
    by (rule rows_cases [OF wf, of now u marca_roupas]) auto
  note E = rows_empty_key [of now u _ s]
  from wf have w: "distinct (map fst (monthlyData s))" "list_all (\<lambda>(k, d). md_id d = k) (monthlyData s)"
    "distinct (map (row_key \<circ> snd) (monthlyData s))"
    by (simp_all add: well_formed_def Map_values_def)
  show ?thesis
    using N I R
    apply (elim disjE exE)
    apply (simp_all add: getCurrentMonthData_def Let_def find_rows categories_def update_fresh g wf)
    apply (auto simp: well_formed_def Map_values_def w g row_key_def)
    apply (metis E)+
    done
qed

lemma foldl_delete:
  "foldl (\<lambda>m d. AList.delete (md_id d) m) m ds = filter (\<lambda>(k, v). k \<notin> md_id ` set ds) m"
proof (induction ds arbitrary: m)
  case Nil
  then show ?case by simp
next
  case (Cons d ds)
  have "filter (\<lambda>(k, v). k \<notin> md_id ` set ds) (AList.delete (md_id d) m) =
      filter (\<lambda>(k, v). k \<notin> md_id ` set (d # ds)) m"
    by (auto simp: AList.delete_eq intro: filter_cong)
  with Cons show ?case by simp
qed

lemma well_formed_filter:
  assumes "well_formed s"
  shows "well_formed (s\<lparr>monthlyData := filter P (monthlyData s)\<rparr>)"
proof -
  from assms have "distinct (map (row_key \<circ> snd) (filter P (monthlyData s)))"
    by (simp add: well_formed_def Map_values_def distinct_map_filter)
  with assms show ?thesis
    by (auto simp: well_formed_def Map_values_def distinct_map_filter list_all_iff)
qed

lemma closeMonth_frame: "transactions (closeMonth now gen h u s) = transactions s"
  by (simp add: closeMonth_def getCurrentMonthData_def Let_def split: prod.splits if_splits)

lemma closeMonth_wf:
  assumes wf: "well_formed s" and fr: "fresh gen s"
  shows "well_formed (closeMonth now gen h u s)"
proof -
  obtain data s1 where r: "getCurrentMonthData now gen u s = (data, s1)"
    by (cases "getCurrentMonthData now gen u s")
  from getCurrentMonthData_wf [OF wf fr, of now u] r have "well_formed s1" by simp
  from well_formed_filter [OF this, of "\<lambda>(k, v). k \<notin> md_id ` set data"] show ?thesis
    by (simp add: closeMonth_def r Let_def foldl_delete well_formed_def)
qed

lemma closeMonth_existing_empty:
  assumes wf: "well_formed s" and fr: "fresh gen s"
  shows "existingData now u (closeMonth now gen h u s) = []"
proof -
  obtain data s1 where r: "getCurrentMonthData now gen u s = (data, s1)"
    by (cases "getCurrentMonthData now gen u s")
  from getCurrentMonthData_wf [OF wf fr, of now u] r have wf1: "well_formed s1" by simp
  from getCurrentMonthData_result [OF wf fr, of now u, unfolded r fst_conv snd_conv]
  have ms: "mset (existingData now u s1) = mset data" by blast
  have "d \<notin> set (existingData now u (closeMonth now gen h u s))" for d
  proof
    assume "d \<in> set (existingData now u (closeMonth now gen h u s))"
    then obtain k where k: "(k, d) \<in> set (monthlyData s1)" "k \<notin> md_id ` set data"
      and d: "md_userId d = u \<and> md_month d = currentMonth now \<and> md_year d = currentYear now"
      by (auto simp: closeMonth_def r Let_def foldl_delete existingData_def Map_values_def)
    from k(1) d have "d \<in> set (existingData now u s1)"
      by (force simp: existingData_def Map_values_def)
    with ms have "d \<in> set data" by (metis set_mset_mset)
    moreover from wf1 k(1) have "md_id d = k"
      by (auto simp: well_formed_def list_all_iff)
    ultimately show False using k(2) by blast
  qed
  then show ?thesis by (cases "existingData now u (closeMonth now gen h u s)") auto
qed

lemma getCurrentMonthData_empty:
  assumes "existingData now u s = []"
  shows "fst (getCurrentMonthData now gen u s) =
     [zero_row now u plr_nacional (gen 0), zero_row now u plr_internacional (gen 1),
      zero_row now u marca_roupas (gen 2)]"
  using assms by (simp add: getCurrentMonthData_def Let_def categories_def zero_row_def numeral_2_eq_2)

lemma find_category_buckets:
  "find (\<lambda>d. md_category d = c)
     (filter (\<lambda>d. md_category d = plr_nacional) xs @
      filter (\<lambda>d. md_category d = plr_internacional) xs @
      filter (\<lambda>d. md_category d = marca_roupas) xs) =
   (case filter (\<lambda>d. md_category d = c) xs of [] \<Rightarrow> None | x # _ \<Rightarrow> Some x)"
  by (cases c) (simp_all add: find_bucket [of _ "_ @ _"])

lemma closeMonth_history:
  "monthlyHistory (closeMonth now gen h u s) =
     AList.update h
       \<lparr>mh_id = h, mh_userId = u, mh_month = currentMonth now, mh_year = currentYear now,
        plrNacionalGastos = snapshot md_gastos (rows now u plr_nacional s),
        plrNacionalReceita = snapshot md_receita (rows now u plr_nacional s),
        plrInternacionalGastos = snapshot md_gastos (rows now u plr_internacional s),
        plrInternacionalReceita = snapshot md_receita (rows now u plr_internacional s),
        marcaRoupasGastos = snapshot md_gastos (rows now u marca_roupas s),
        marcaRoupasReceita = snapshot md_receita (rows now u marca_roupas s),
        closedAt = now\<rparr>
       (monthlyHistory s)"
proof (cases "length (existingData now u s) = 3")
  case True
  then show ?thesis
    by (simp add: closeMonth_def getCurrentMonthData_def Let_def sort_js_buckets
        find_category_buckets rows_def snapshot_def or_zero_def split: list.splits)
next
  case False
  have cat: "rows now u c s = x # xs \<Longrightarrow> md_category x = c" for c x xs
    by (metis rows_mem list.set_intros(1))
  from False show ?thesis
    by (cases "rows now u plr_nacional s"; cases "rows now u plr_internacional s";
        cases "rows now u marca_roupas s")
      (simp_all add: closeMonth_def getCurrentMonthData_def Let_def categories_def find_rows
        snapshot_def or_zero_def cat)
qed

section \<open>The sort of the history\<close>

lemma mset_insort_js: "mset (insort_js cmp x ys) = add_mset x (mset ys)"
  by (induction ys) auto

lemma mset_sort_js: "mset (sort_js cmp xs) = mset xs"
  by (induction xs) (auto simp: sort_js_def mset_insort_js)

lemma recent_iff: "by_recency a b \<le> 0 \<longleftrightarrow> recent a b"
  by (auto simp: by_recency_def recent_def)

lemma recent_total: "\<not> recent a b \<Longrightarrow> recent b a"
  by (auto simp: recent_def)

lemma recent_trans: "recent a b \<Longrightarrow> recent b c \<Longrightarrow> recent a c"
  by (auto simp: recent_def)

lemma sorted_insort_recent:
  "sorted_wrt recent ys \<Longrightarrow> sorted_wrt recent (insort_js by_recency x ys)"
proof (induction ys)
  case Nil
  then show ?case by simp
next
  case (Cons y ys)
  show ?case
  proof (cases "recent x y")
    case True
    with Cons.prems show ?thesis
      by (auto simp: recent_iff intro: recent_trans)
  next
    case False
    then have yx: "recent y x" by (rule recent_total)
    have "set (insort_js by_recency x ys) = insert x (set ys)"
      using arg_cong [OF mset_insort_js [of by_recency x ys], of set_mset] by simp
    with False yx Cons show ?thesis
      by (auto simp: recent_iff)
  qed
qed

lemma sorted_sort_recent: "sorted_wrt recent (sort_js by_recency xs)"
  by (induction xs) (auto simp: sort_js_def sorted_insort_recent)

lemma sorted_wrt_take_drop:
  "sorted_wrt P xs \<Longrightarrow> a \<in> set (take n xs) \<Longrightarrow> b \<in> set (drop n xs) \<Longrightarrow> P a b"
  using sorted_wrt_append [of P "take n xs" "drop n xs"] by simp

lemma getMonthlyHistory_limit:
  assumes "0 \<le> l"
  shows "getMonthlyHistory u (Some l) s =
           take (nat l) (sort_js by_recency (filter (\<lambda>h. mh_userId h = u) (Map_values (monthlyHistory s))))"
  using assms by (auto simp: getMonthlyHistory_def slice0_def Let_def min_def)

section \<open>Printed numbers are not empty\<close>

lemma digits_nonempty: "digits n \<noteq> []"
  by (subst digits.simps) simp

lemma fixed_digits_nonempty: "fixed_digits b a f \<noteq> []"
  by (cases b) (auto simp: toString_large_def Let_def digits_nonempty split: prod.splits)

lemma toFixed_nonempty: "toFixed x f \<noteq> []"
  by (cases x) (simp_all add: toFixed_def fixed_digits_nonempty)

lemma or_zero_toFixed: "or_zero (Some (toFixed x f)) = toFixed x f"
  by (simp add: or_zero_def toFixed_nonempty)

lemma toFixed_zero: "toFixed (Num 0) 2 = ''0.00''"
  by code_simp

lemma recalculateMonthlyData_transactions [simp]:
  "transactions (recalculateMonthlyData now newId u c s) = transactions s"
  by (simp add: recalculateMonthlyData_def updateMonthlyData_def Let_def split: option.splits)

lemma apply_operation_after_close:
  "transactions (apply_operation u x (closeMonth now gen h u' s)) = transactions (apply_operation u x s)"
  by (cases x)
    (simp_all add: createTransaction_def updateTransaction_def deleteTransaction_def Let_def
      closeMonth_frame split: option.splits)

section \<open>The example storage, evaluated\<close>

lemma one_purchase_eval [code]:
  "one_purchase =
     \<lparr>monthlyData =
        [(''m1'', \<lparr>md_id = ''m1'', md_userId = ''u1'', md_category = plr_nacional,
                   md_month = 11, md_year = 2026, md_gastos = ''50.00'', md_receita = ''0.00'',
                   md_createdAt = november, md_updatedAt = november\<rparr>)],
      monthlyHistory = [],
      transactions =
        [(''t1'', \<lparr>t_id = ''t1'', t_userId = ''u1'', t_category = plr_nacional, t_type = expense,
                   t_description = ''stock'', t_amount = ''50.00'', t_occurredAt = november,
                   t_createdAt = november, t_updatedAt = november\<rparr>)]\<rparr>"
  unfolding one_purchase_def by code_simp

section \<open>What a close archives\<close>

lemma closeMonth_snapshot:
  "map_of (monthlyHistory (closeMonth now gen h u s)) h =
     Some \<lparr>mh_id = h, mh_userId = u, mh_month = currentMonth now, mh_year = currentYear now,
        plrNacionalGastos = snapshot md_gastos (rows now u plr_nacional s),
        plrNacionalReceita = snapshot md_receita (rows now u plr_nacional s),
        plrInternacionalGastos = snapshot md_gastos (rows now u plr_internacional s),
        plrInternacionalReceita = snapshot md_receita (rows now u plr_internacional s),
        marcaRoupasGastos = snapshot md_gastos (rows now u marca_roupas s),
        marcaRoupasReceita = snapshot md_receita (rows now u marca_roupas s),
        closedAt = now\<rparr>"
  by (simp only: closeMonth_history update_conv' fun_upd_same)

lemma rows_after_close:
  assumes "well_formed s" and "fresh gen s" and "same_month now' now"
  shows "rows now' u c (closeMonth now gen h u s) = []"
proof -
  from assms(3) have "existingData now' u (closeMonth now gen h u s) =
      existingData now u (closeMonth now gen h u s)"
    by (intro existingData_same_month) (simp_all add: same_month_def)
  with closeMonth_existing_empty [OF assms(1,2), of now u h] show ?thesis
    by (simp add: rows_def)
qed

section \<open>The first transaction of a month\<close>

lemma filter_update_single:
  "filter P (map snd m) = [] \<Longrightarrow> P v \<Longrightarrow> filter P (map snd (AList.update k v m)) = [v]"
  by (induction m) (auto split: if_splits)

lemma total_of_single:
  "total_of k [t] = (if t_type t = k then plus_js (Num 0) (Number_js (t_amount t)) else Num 0)"
  by (simp add: total_of_def)

lemma createTransaction_only:
  assumes wf: "well_formed s"
    and mt: "month_transactions now u (i_category tr) s = []"
    and occ: "case i_occurredAt tr of None \<Rightarrow> True
              | Some d \<Rightarrow> getMonth d + 1 = currentMonth now \<and> getFullYear d = currentYear now"
  shows "\<exists>r. rows now u (i_category tr) (snd (createTransaction now newId mdId u tr s)) = [r] \<and>
           row_field k r =
             toFixed (if i_type tr = k then plus_js (Num 0) (Number_js (i_amount tr)) else Num 0) 2"
proof -
  let ?t = "\<lparr>t_id = newId, t_userId = u, t_category = i_category tr, t_type = i_type tr,
      t_description = i_description tr, t_amount = i_amount tr,
      t_occurredAt = (case i_occurredAt tr of None \<Rightarrow> now | Some d \<Rightarrow> d),
      t_createdAt = now, t_updatedAt = now\<rparr>"
  let ?s1 = "snd (createTransaction now newId mdId u tr s)"
  from occ have "in_current_month now u (i_category tr) ?t"
    by (simp add: in_current_month_def currentMonth_def currentYear_def split: option.splits)
  with mt have ts: "filter (in_current_month now u (i_category tr))
      (map snd (AList.update newId ?t (transactions s))) = [?t]"
    by (intro filter_update_single) (simp_all add: month_transactions_def Map_values_def)
  have tr: "transactions ?s1 = AList.update newId ?t (transactions s)"
    using recalculateMonthlyData_frame [of "s\<lparr>transactions := AList.update newId ?t (transactions s)\<rparr>"
        now mdId u "i_category tr"] wf
    by (simp add: createTransaction_def Let_def)
  have mt1: "month_transactions now u (i_category tr) ?s1 = [?t]"
    by (simp add: month_transactions_def tr Map_values_def ts)
  from createTransaction_totals_match [OF wf, of now u tr newId mdId]
  obtain r where r: "rows now u (i_category tr) ?s1 = [r]"
    "md_gastos r = toFixed (total_of expense [?t]) 2" "md_receita r = toFixed (total_of gain [?t]) 2"
    by (auto simp: totals_match_def mt1 split: list.splits)
  then show ?thesis
    by (cases k) (auto simp: total_of_single)
qed

section \<open>Every reachable storage is well-formed\<close>

lemma new_MemStorage_wf: "well_formed new_MemStorage"
  by (simp add: well_formed_def new_MemStorage_def Map_values_def)

lemma reachable_well_formed: "reachable s \<Longrightarrow> well_formed s"
proof (induction rule: reachable.induct)
  case initial
  show ?case by (rule new_MemStorage_wf)
next
  case (read s gen now userId)
  then show ?case by (simp add: getCurrentMonthData_wf)
next
  case (edit s now newId userId updateData)
  then show ?case by (simp add: updateMonthlyData_wf)
next
  case (close s gen now historyId userId)
  then show ?case by (simp add: closeMonth_wf)
next
  case (mutate s userId x)
  then show ?case by (simp add: apply_operation_wf)
qed

section \<open>Amounts with two decimals\<close>

lemma digit_cases:
  assumes "0 \<le> k" and "k < 10"
  shows "k = 0 \<or> k = 1 \<or> k = 2 \<or> k = 3 \<or> k = 4 \<or> k = 5 \<or> k = 6 \<or> k = 7 \<or> k = 8 \<or> k = (9::int)"
  using assms by arith

lemma digit_of_digit:
  assumes "0 \<le> k" and "k < 10"
  shows "digit_of (''0123456789'' ! nat k) = Some k"
proof -
  have "digit_of (''0123456789'' ! nat 0) = Some 0" "digit_of (''0123456789'' ! nat 1) = Some 1"
    "digit_of (''0123456789'' ! nat 2) = Some 2" "digit_of (''0123456789'' ! nat 3) = Some 3"
    "digit_of (''0123456789'' ! nat 4) = Some 4" "digit_of (''0123456789'' ! nat 5) = Some 5"
    "digit_of (''0123456789'' ! nat 6) = Some 6" "digit_of (''0123456789'' ! nat 7) = Some 7"
    "digit_of (''0123456789'' ! nat 8) = Some 8" "digit_of (''0123456789'' ! nat 9) = Some 9"
    by code_simp+
  with digit_cases [OF assms] show ?thesis by fastforce
qed

lemma digits_small: "0 \<le> n \<Longrightarrow> n < 10 \<Longrightarrow> digits n = [''0123456789'' ! nat n]"
  by (subst digits.simps) simp

lemma digits_large: "10 \<le> n \<Longrightarrow> digits n = digits (n div 10) @ [''0123456789'' ! nat (n mod 10)]"
  by (subst digits.simps) simp

lemma digits_value_snoc:
  "digits_value 10 (xs @ [ch]) = 10 * digits_value 10 xs + (case digit_of ch of None \<Rightarrow> 0 | Some d \<Rightarrow> d)"
  by (simp add: digits_value_def)

lemma digits_value_digits: "0 \<le> n \<Longrightarrow> digits_value 10 (digits n) = n"
proof (induction n rule: digits.induct)
  case (1 n)
  show ?case
  proof (cases "n < 10")
    case True
    with "1.prems" show ?thesis
      using digits_value_snoc [of "[]"] by (simp add: digits_small digit_of_digit digits_value_def)
  next
    case False
    with 1 have "digits_value 10 (digits (n div 10)) = n div 10" by simp
    with False show ?thesis
      by (simp add: digits_large digits_value_snoc digit_of_digit)
  qed
qed

lemma is_digit_digit: "0 \<le> k \<Longrightarrow> k < 10 \<Longrightarrow> is_digit 10 (''0123456789'' ! nat k)"
  by (simp add: is_digit_def digit_of_digit)

lemma digits_all_digits: "0 \<le> n \<Longrightarrow> list_all (is_digit 10) (digits n)"
proof (induction n rule: digits.induct)
  case (1 n)
  show ?case
  proof (cases "n < 10")
    case True
    with "1.prems" show ?thesis by (simp add: digits_small is_digit_digit)
  next
    case False
    with 1 have "list_all (is_digit 10) (digits (n div 10))" by simp
    with False show ?thesis by (simp add: digits_large is_digit_digit)
  qed
qed

lemma value_decimal_2:
  assumes "0 \<le> c"
  shows "digits_value 10
           (digits (c div 100) @ [''0123456789'' ! nat (c div 10 mod 10), ''0123456789'' ! nat (c mod 10)]) = c"
proof -
  have "digits_value 10 ((digits (c div 100) @ [''0123456789'' ! nat (c div 10 mod 10)]) @
      [''0123456789'' ! nat (c mod 10)]) =
    10 * (10 * (c div 100) + c div 10 mod 10) + c mod 10"
    using assms
    by (simp only: digits_value_snoc digits_value_digits digit_of_digit option.case
        pos_imp_zdiv_nonneg_iff pos_mod_sign pos_mod_bound)
  also have "\<dots> = c"
  proof -
    have "c div 100 = c div 10 div 10" by (simp add: zdiv_zmult2_eq)
    then show ?thesis by (simp add: algebra_simps)
  qed
  finally show ?thesis by (simp only: append_assoc append_Cons append_Nil)
qed

lemma fixed_digits_2:
  assumes "0 \<le> c" and "\<lfloor>a * 10 ^ 2 + 1 / 2\<rfloor> = c"
  shows "fixed_digits False a 2 = decimal_2 c"
proof -
  have zero: "''0123456789'' ! nat 0 = CHR ''0''" by simp
  consider "c < 10" | "10 \<le> c" "c < 100" | "100 \<le> c" by linarith
  then show ?thesis
  proof cases
    case 1
    with assms have "digits c = [''0123456789'' ! nat c]" "c div 100 = 0" "c div 10 mod 10 = 0"
      "c mod 10 = c"
      by (simp_all add: digits_small)
    then show ?thesis
      using assms(2) by (simp add: decimal_2_def Let_def digits_small numeral_2_eq_2)
  next
    case 2
    then have "c div 10 < 10" "0 \<le> c div 10" "c div 100 = 0" "c div 10 mod 10 = c div 10"
      by simp_all
    with 2 have "digits c = [''0123456789'' ! nat (c div 10), ''0123456789'' ! nat (c mod 10)]"
      by (simp add: digits_large digits_small)
    with \<open>c div 100 = 0\<close> \<open>c div 10 mod 10 = c div 10\<close> show ?thesis
      using assms(2) by (simp add: decimal_2_def Let_def digits_small numeral_2_eq_2)
  next
    case 3
    then have "10 \<le> c div 10" by simp
    moreover have "c div 10 div 10 = c div 100" by (simp add: zdiv_zmult2_eq)
    ultimately have "digits c = digits (c div 100) @
        [''0123456789'' ! nat (c div 10 mod 10), ''0123456789'' ! nat (c mod 10)]"
      using 3 by (simp add: digits_large [of c] digits_large [of "c div 10"])
    moreover have "digits (c div 100) \<noteq> []" by (rule digits_nonempty)
    ultimately show ?thesis
      using assms(2) by (simp add: decimal_2_def Let_def)
  qed
qed

lemma digit_not_space: "is_digit 10 ch \<Longrightarrow> \<not> is_StrWhiteSpaceChar ch"
  by (auto simp: is_digit_def digit_of_def is_StrWhiteSpaceChar_def Let_def split: if_splits)

lemma not_digits:
  "\<not> is_digit 10 CHR ''.''" "\<not> is_digit 10 CHR ''x''" "\<not> is_digit 10 CHR ''X''"
  "\<not> is_digit 10 CHR ''o''" "\<not> is_digit 10 CHR ''O''" "\<not> is_digit 10 CHR ''b''"
  "\<not> is_digit 10 CHR ''B''" "\<not> is_digit 10 CHR ''-''" "\<not> is_digit 10 CHR ''+''"
  "\<not> is_digit 10 CHR ''I''"
  by code_simp+

section \<open>Decimal literals\<close>

lemma not_spaces:
  "\<not> is_StrWhiteSpaceChar CHR ''.''" "\<not> is_StrWhiteSpaceChar CHR ''e''"
  "\<not> is_StrWhiteSpaceChar CHR ''E''" "\<not> is_StrWhiteSpaceChar CHR ''-''"
  "\<not> is_StrWhiteSpaceChar CHR ''+''"
  by code_simp+

lemma exponent_part_chars:
  assumes "exponent_part r = Some e" and "ch \<in> set r"
  shows "\<not> is_StrWhiteSpaceChar ch"
proof (cases r)
  case Nil
  with assms show ?thesis by simp
next
  case (Cons c r')
  with assms(1) have c: "c = CHR ''e'' \<or> c = CHR ''E''"
    by (auto simp: exponent_part_def split: if_splits)
  let ?ds = "if r' \<noteq> [] \<and> (hd r' = CHR ''-'' \<or> hd r' = CHR ''+'') then tl r' else r'"
  from assms(1) Cons c have ds: "list_all (is_digit 10) ?ds"
    by (auto simp: exponent_part_def Let_def split: if_splits)
  have "ch' \<in> set r' \<Longrightarrow> \<not> is_StrWhiteSpaceChar ch'" for ch'
    using ds by (cases r') (auto simp: list_all_iff not_spaces digit_not_space split: if_splits)
  with assms(2) Cons c show ?thesis by (auto simp: not_spaces)
qed

lemma unsigned_decimal_chars:
  assumes "unsigned_decimal a = Some x" and "ch \<in> set a"
  shows "\<not> is_StrWhiteSpaceChar ch"
proof -
  define r1 where "r1 = dropWhile (is_digit 10) a"
  define dot where "dot \<longleftrightarrow> r1 \<noteq> [] \<and> hd r1 = CHR ''.''"
  define r2 where "r2 = (if dot then dropWhile (is_digit 10) (tl r1) else r1)"
  from assms(1) obtain e where e: "exponent_part r2 = Some e"
    unfolding unsigned_decimal_def r1_def [symmetric] Let_def dot_def [symmetric] r2_def [symmetric]
    by (auto split: if_splits option.splits)
  have r2: "ch' \<in> set r2 \<Longrightarrow> \<not> is_StrWhiteSpaceChar ch'" for ch'
    using e by (rule exponent_part_chars)
  have r1: "\<not> is_StrWhiteSpaceChar ch'" if "ch' \<in> set r1" for ch'
  proof (cases dot)
    case False
    with r2 [of ch'] that show ?thesis by (simp add: r2_def)
  next
    case True
    then obtain t where t: "r1 = CHR ''.'' # t" by (cases r1) (auto simp: dot_def)
    have "t = takeWhile (is_digit 10) t @ dropWhile (is_digit 10) t" by simp
    then have "set t = set (takeWhile (is_digit 10) t) \<union> set (dropWhile (is_digit 10) t)"
      by (metis set_append)
    moreover have "ch' \<in> set (takeWhile (is_digit 10) t) \<Longrightarrow> \<not> is_StrWhiteSpaceChar ch'"
      using set_takeWhileD [of ch' "is_digit 10" t] digit_not_space [of ch'] by blast
    moreover have "ch' \<in> set (dropWhile (is_digit 10) t) \<Longrightarrow> \<not> is_StrWhiteSpaceChar ch'"
      using r2 [of ch'] True t by (simp add: r2_def)
    ultimately show ?thesis using that t by (auto simp: not_spaces)
  qed
  have "a = takeWhile (is_digit 10) a @ r1" by (simp add: r1_def)
  then have "set a = set (takeWhile (is_digit 10) a) \<union> set r1" by (metis set_append)
  with assms(2) r1 show ?thesis
    using set_takeWhileD [of ch "is_digit 10" a] digit_not_space [of ch] by blast
qed

lemma unsigned_decimal_hd:
  assumes "unsigned_decimal a = Some x"
  shows "a \<noteq> [] \<and> (is_digit 10 (hd a) \<or> hd a = CHR ''.'')"
proof (cases a)
  case Nil
  with assms show ?thesis by (simp add: unsigned_decimal_def)
next
  case (Cons c cs)
  show ?thesis
  proof (cases "is_digit 10 c")
    case True
    with Cons show ?thesis by simp
  next
    case False
    with assms Cons show ?thesis
      by (auto simp: unsigned_decimal_def Let_def split: if_splits)
  qed
qed

lemma unsigned_decimal_prefix:
  assumes "\<not> is_digit 10 c" and "c \<noteq> CHR ''.''" and "c \<noteq> CHR ''e''" and "c \<noteq> CHR ''E''"
  shows "unsigned_decimal (d # c # r) = None"
  using assms
  by (cases "is_digit 10 d") (simp_all add: unsigned_decimal_def Let_def exponent_part_def)

lemma trim_id:
  assumes "a \<noteq> []" and "\<And>ch. ch \<in> set a \<Longrightarrow> \<not> is_StrWhiteSpaceChar ch"
  shows "trim a = a"
proof -
  from assms have "\<not> is_StrWhiteSpaceChar (hd a)" by simp
  with assms(1) have 1: "dropWhile is_StrWhiteSpaceChar a = a" by (cases a) simp_all
  from assms have "\<not> is_StrWhiteSpaceChar (hd (rev a))"
    by (simp add: hd_rev)
  with assms(1) have "dropWhile is_StrWhiteSpaceChar (rev a) = rev a" by (cases "rev a") simp_all
  with 1 show ?thesis by (simp add: trim_def)
qed

lemma Number_js_unsigned:
  assumes "unsigned_decimal a = Some x"
  shows "Number_js a = round_double x"
proof -
  from unsigned_decimal_hd [OF assms] have ne: "a \<noteq> []"
    and hd: "is_digit 10 (hd a) \<or> hd a = CHR ''.''" by simp_all
  have trim: "trim a = a"
    using ne unsigned_decimal_chars [OF assms] by (rule trim_id)
  have no: "take 2 a \<noteq> [d, c]" if "\<not> is_digit 10 c" "c \<noteq> CHR ''.''" "c \<noteq> CHR ''e''" "c \<noteq> CHR ''E''"
    for d c
  proof
    assume "take 2 a = [d, c]"
    then obtain r where "a = d # c # r"
      by (cases a; cases "tl a") (auto simp: numeral_2_eq_2)
    with unsigned_decimal_prefix [OF that, of d r] assms show False by simp
  qed
  have p: "take 2 a \<notin> {''0x'', ''0X''}" "take 2 a \<notin> {''0o'', ''0O''}" "take 2 a \<notin> {''0b'', ''0B''}"
    using no [of "CHR ''x''"] no [of "CHR ''X''"] no [of "CHR ''o''"]
      no [of "CHR ''O''"] no [of "CHR ''b''"] no [of "CHR ''B''"]
    by (auto simp: not_digits)
  have sign: "hd a \<noteq> CHR ''-''" "hd a \<noteq> CHR ''+''" "a \<noteq> ''Infinity''"
    using hd not_digits by auto
  have "signed_decimal a = round_double x"
    unfolding signed_decimal_def using sign ne assms by (simp add: Let_def)
  with trim p ne show ?thesis
    unfolding Number_js_def by (simp add: Let_def)
qed

lemma digits_value_nonneg: "0 \<le> digits_value 10 ds"
proof -
  have "0 \<le> n \<Longrightarrow> 0 \<le> foldl (\<lambda>n c. 10 * n + (case digit_of c of None \<Rightarrow> 0 | Some d \<Rightarrow> d)) n ds"
    for n :: int
  proof (induction ds arbitrary: n)
    case Nil
    then show ?case by simp
  next
    case (Cons c ds)
    have "0 \<le> (case digit_of c of None \<Rightarrow> 0 | Some d \<Rightarrow> d)"
      by (auto simp: digit_of_def Let_def split: option.splits if_splits)
    with Cons.prems have "0 \<le> 10 * n + (case digit_of c of None \<Rightarrow> 0 | Some d \<Rightarrow> d)" by simp
    from Cons.IH [OF this] show ?case by simp
  qed
  then show ?thesis by (simp add: digits_value_def)
qed

lemma unsigned_decimal_nonneg: "unsigned_decimal a = Some x \<Longrightarrow> 0 \<le> x"
  by (auto simp: unsigned_decimal_def Let_def pow10_def digits_value_nonneg
      split: if_splits option.splits)

lemma unsigned_decimal_2:
  assumes ds: "list_all (is_digit 10) ds" "ds \<noteq> []" and d: "is_digit 10 d1" "is_digit 10 d0"
  shows "unsigned_decimal (ds @ ''.'' @ [d1, d0]) =
           Some (of_int (digits_value 10 (ds @ [d1, d0])) * pow10 (- 2))"
proof -
  from ds(1) have all: "\<And>x. x \<in> set ds \<Longrightarrow> is_digit 10 x" by (simp add: list_all_iff)
  have t: "takeWhile (is_digit 10) (ds @ ''.'' @ [d1, d0]) = ds"
    using all by (simp add: takeWhile_append2 not_digits)
  have r: "dropWhile (is_digit 10) (ds @ ''.'' @ [d1, d0]) = ''.'' @ [d1, d0]"
    using all by (simp add: dropWhile_append2 not_digits)
  show ?thesis
    unfolding unsigned_decimal_def t r using ds(2) d
    by (simp add: Let_def exponent_part_def)
qed

lemma Number_js_plain:
  assumes ds: "list_all (is_digit 10) ds" "ds \<noteq> []" and d: "is_digit 10 d1" "is_digit 10 d0"
  shows "Number_js (ds @ ''.'' @ [d1, d0]) =
           round_double (of_int (digits_value 10 (ds @ [d1, d0])) * pow10 (- 2))"
  using ds d by (intro Number_js_unsigned unsigned_decimal_2)

lemma Number_js_decimal_2:
  assumes "0 \<le> c"
  shows "Number_js (decimal_2 c) = round_double (of_int c / 100)"
proof -
  have "Number_js (decimal_2 c) =
      round_double (of_int (digits_value 10 (digits (c div 100) @
        [''0123456789'' ! nat (c div 10 mod 10), ''0123456789'' ! nat (c mod 10)])) * pow10 (- 2))"
    unfolding decimal_2_def using assms
    by (intro Number_js_plain digits_all_digits digits_nonempty is_digit_digit) simp_all
  then show ?thesis
    using assms by (simp add: value_decimal_2 pow10_def)
qed

section \<open>The error of rounding to binary64\<close>

lemma pow2_powi: "pow2 e = 2 powi e"
  by (simp add: pow2_def power_int_def power_one_over inverse_eq_divide)

lemma pow2_pos: "0 < pow2 e"
  by (simp add: pow2_powi)

lemma pow2_diff: "pow2 (a - b) = pow2 a / pow2 b"
  by (simp add: pow2_powi power_int_diff)

lemma pow2_nat: "pow2 (int n) = 2 ^ n"
  by (simp add: pow2_def)

lemma ilog2_le:
  assumes "0 < a"
  shows "pow2 (ilog2 a) \<le> a"
proof (cases "1 \<le> a")
  case True
  then have n: "0 < \<lfloor>a\<rfloor>" by simp
  from bitlen_bounds [OF n] have "2 ^ nat (bitlen \<lfloor>a\<rfloor> - 1) \<le> \<lfloor>a\<rfloor>" by simp
  then have "(of_int (2 ^ nat (bitlen \<lfloor>a\<rfloor> - 1)) :: rat) \<le> of_int \<lfloor>a\<rfloor>"
    by (simp only: of_int_le_iff)
  also have "\<dots> \<le> a" by simp
  finally have "(2 :: rat) ^ nat (bitlen \<lfloor>a\<rfloor> - 1) \<le> a" by simp
  moreover from n have "1 \<le> bitlen \<lfloor>a\<rfloor>" by (simp add: bitlen_alt_def)
  ultimately show ?thesis using True by (simp add: ilog2_def pow2_def)
next
  case False
  let ?N = "\<lceil>1 / a\<rceil>"
  from False assms have "1 < 1 / a" by simp
  then have N: "2 \<le> ?N" by (simp add: le_ceiling_iff)
  then have pos: "0 < ?N - 1" by simp
  from bitlen_bounds [OF pos] have "?N - 1 < 2 ^ nat (bitlen (?N - 1))" by simp
  then have "?N \<le> 2 ^ nat (bitlen (?N - 1))" by simp
  then have "(of_int ?N :: rat) \<le> of_int (2 ^ nat (bitlen (?N - 1)))"
    by (simp only: of_int_le_iff)
  then have "(of_int ?N :: rat) \<le> 2 ^ nat (bitlen (?N - 1))"
    by (simp only: of_int_power of_int_numeral)
  then have "1 / a \<le> 2 ^ nat (bitlen (?N - 1))"
    using le_of_int_ceiling [of "1 / a"] by (rule order_trans [rotated])
  with assms have "1 / 2 ^ nat (bitlen (?N - 1)) \<le> a"
    by (simp add: field_simps)
  moreover from pos have "1 \<le> bitlen (?N - 1)" by (simp add: bitlen_alt_def)
  ultimately show ?thesis using False by (simp add: ilog2_def pow2_def)
qed

lemma round_half_even_error: "\<bar>of_int (round_half_even x) - x\<bar> \<le> 1 / 2"
proof -
  have "of_int \<lfloor>x\<rfloor> \<le> x" "x < of_int \<lfloor>x\<rfloor> + 1" by linarith+
  then show ?thesis
    by (auto simp: round_half_even_def Let_def)
qed

lemma overflow_threshold_eq: "overflow_threshold = 2 ^ 1024"
  by (simp add: overflow_threshold_def)

lemma round_double_error:
  assumes lo: "pow2 (- 1022) \<le> x" and hi: "x < 2 ^ 1023"
  shows "\<exists>v. round_double x = Num v \<and> \<bar>v - x\<bar> \<le> x / 2 ^ 53"
proof -
  define q where "q = max (ilog2 x - 52) (- 1074)"
  define v where "v = of_int (round_half_even (x / pow2 q)) * pow2 q"
  from lo have pos: "0 < x" using pow2_pos [of "- 1022"] by linarith
  have p52: "pow2 52 = 2 ^ 52" using pow2_nat [of 52] by simp
  have "pow2 (ilog2 x - 52) = pow2 (ilog2 x) / 2 ^ 52"
    by (simp add: pow2_diff p52)
  also have "\<dots> \<le> x / 2 ^ 52"
    using ilog2_le [OF pos] by (simp add: divide_right_mono)
  finally have 1: "pow2 (ilog2 x - 52) \<le> x / 2 ^ 52" .
  have "pow2 (- 1074) = pow2 (- 1022 - 52)" by simp
  also have "\<dots> = pow2 (- 1022) / 2 ^ 52"
    by (simp only: pow2_diff p52)
  also have "\<dots> \<le> x / 2 ^ 52"
    using lo by (simp add: divide_right_mono)
  finally have 2: "pow2 (- 1074) \<le> x / 2 ^ 52" .
  from 1 2 have q: "pow2 q \<le> x / 2 ^ 52"
    by (simp add: q_def max_def)
  have "\<bar>v - x\<bar> = \<bar>of_int (round_half_even (x / pow2 q)) - x / pow2 q\<bar> * pow2 q"
  proof -
    have "v - x = (of_int (round_half_even (x / pow2 q)) - x / pow2 q) * pow2 q"
      using pow2_pos [of q] by (simp add: v_def left_diff_distrib)
    then show ?thesis
      using pow2_pos [of q] by (simp add: abs_mult)
  qed
  also have "\<dots> \<le> 1 / 2 * pow2 q"
    using round_half_even_error [of "x / pow2 q"] pow2_pos [of q]
    by (intro mult_right_mono) simp_all
  also have "\<dots> \<le> 1 / 2 * (x / 2 ^ 52)"
    using q by simp
  also have "\<dots> = x / 2 ^ 53" by simp
  finally have err: "\<bar>v - x\<bar> \<le> x / 2 ^ 53" .
  have "x / 2 ^ 53 \<le> x" using pos by (simp add: field_simps)
  with err have "v \<le> 2 * x" by linarith
  with hi have "v < 2 ^ 1024" by simp
  then have "\<not> overflow_threshold \<le> v" by (simp only: overflow_threshold_eq not_le)
  with pos have "round_double x = Num v"
    by (simp add: round_double_def Let_def v_def q_def)
  with err show ?thesis by blast
qed

lemma toFixed_Number_decimal_2:
  assumes c: "0 \<le> c" "c < 10 ^ 10"
  shows "toFixed (plus_js (Num 0) (Number_js (decimal_2 c))) 2 = decimal_2 c"
proof -
  define x :: rat where "x = of_int c / 100"
  have parse: "Number_js (decimal_2 c) = round_double x"
    using c(1) by (simp add: Number_js_decimal_2 x_def)
  have "\<exists>v. plus_js (Num 0) (round_double x) = Num v \<and> 0 \<le> v \<and> v < 10 ^ 21 \<and>
      \<lfloor>v * 10 ^ 2 + 1 / 2\<rfloor> = c"
  proof (cases "c = 0")
    case True
    have "\<lfloor>1 / 2 :: rat\<rfloor> = 0" by (rule floor_unique) simp_all
    with True show ?thesis by (simp add: x_def round_double_def)
  next
    case False
    with c have c1: "1 \<le> c" by simp
    have tiny: "pow2 (- 1022) \<le> 1 / 200" by (simp add: pow2_def)
    from c1 have xlo: "1 / 100 \<le> x" by (simp add: x_def)
    from c(2) have "(of_int c :: rat) < of_int (10 ^ 10)" by (simp only: of_int_less_iff)
    then have xhi: "x < 10 ^ 8" by (simp add: x_def)
    from xlo tiny have "pow2 (- 1022) \<le> x" by linarith
    moreover from xhi have "x < 2 ^ 1023" by simp
    ultimately obtain v1 where v1: "round_double x = Num v1" "\<bar>v1 - x\<bar> \<le> x / 2 ^ 53"
      using round_double_error by blast
    have "x / 2 ^ 53 \<le> x / 2" using xlo by simp
    with v1(2) have v1_bounds: "x / 2 \<le> v1" "v1 \<le> 2 * x" by linarith+
    from v1_bounds(1) xlo tiny have "pow2 (- 1022) \<le> v1" by linarith
    moreover from v1_bounds(2) xhi have "v1 < 2 ^ 1023" by simp
    ultimately obtain v2 where v2: "round_double v1 = Num v2" "\<bar>v2 - v1\<bar> \<le> v1 / 2 ^ 53"
      using round_double_error by blast
    from v1_bounds(2) have "v1 / 2 ^ 53 \<le> 2 * x / 2 ^ 53" by (simp add: divide_right_mono)
    with v1(2) v2(2) have "\<bar>v2 - x\<bar> \<le> 3 * x / 2 ^ 53" by linarith
    moreover have "3 * x / 2 ^ 53 < 1 / 200" using xhi by simp
    ultimately have close: "\<bar>v2 - x\<bar> < 1 / 200" by linarith
    have cx: "of_int c = x * 100" by (simp add: x_def)
    from close have "x - 1 / 200 < v2" "v2 < x + 1 / 200" by linarith+
    then have "x * 100 \<le> v2 * 100 + 1 / 2" "v2 * 100 + 1 / 2 < x * 100 + 1" by linarith+
    then have "of_int c \<le> v2 * 10 ^ 2 + 1 / 2" "v2 * 10 ^ 2 + 1 / 2 < of_int c + 1"
      by (simp_all add: cx)
    then have "\<lfloor>v2 * 10 ^ 2 + 1 / 2\<rfloor> = c" by (rule floor_unique)
    moreover from close xlo have "0 \<le> v2" by linarith
    moreover have "v2 < 10 ^ 21"
    proof -
      from xhi have "x < 100000000" by simp
      with close have "v2 < 100000001" by linarith
      also have "\<dots> < 10 ^ 21" by simp
      finally show ?thesis .
    qed
    ultimately show ?thesis using v1(1) v2(1) by simp
  qed
  then obtain v where v: "plus_js (Num 0) (round_double x) = Num v" "0 \<le> v" "v < 10 ^ 21"
    "\<lfloor>v * 10 ^ 2 + 1 / 2\<rfloor> = c"
    by blast
  from v(2,3) have "toFixed (Num v) 2 = fixed_digits False v 2"
    by (simp add: toFixed_def)
  also have "\<dots> = decimal_2 c"
    using c(1) v(4) by (rule fixed_digits_2)
  finally show ?thesis by (simp add: parse v(1))
qed

section \<open>Sums of amounts in binary64\<close>

lemma round_double_zero: "round_double 0 = Num 0"
  by (simp add: round_double_def)

lemma sum_list_hundredths:
  fixes xs :: "rat list"
  assumes "\<forall>x\<in>set xs. x = 0 \<or> 1 / 100 \<le> x"
  shows "0 \<le> sum_list xs \<and> (sum_list xs = 0 \<or> 1 / 100 \<le> sum_list xs) \<and>
         (\<forall>x\<in>set xs. x \<le> sum_list xs)"
  using assms
proof (induction xs)
  case Nil
  show ?case by simp
next
  case (Cons x xs)
  then have "0 \<le> sum_list xs" "sum_list xs = 0 \<or> 1 / 100 \<le> sum_list xs"
    "\<forall>y\<in>set xs. y \<le> sum_list xs" "x = 0 \<or> 1 / 100 \<le> x"
    by simp_all
  then show ?case by auto
qed

lemma error_below_half:
  fixes n T :: rat
  assumes n: "0 \<le> n" and T: "T = 0 \<or> 1 / 100 \<le> T" and b: "n * T \<le> 10 ^ 13"
  shows "3 * (n * T) / 2 ^ 53 \<le> T / 2"
proof (cases "T = 0")
  case True
  then show ?thesis by simp
next
  case False
  with T have T1: "1 / 100 \<le> T" by simp
  then have T0: "0 \<le> T" by simp
  define P where "P = n * T"
  have "n * (1 / 100) \<le> n * T" using n T1 by (rule mult_left_mono [rotated])
  with b have "n \<le> 10 ^ 15" by simp
  then have "n * T \<le> 10 ^ 15 * T" using T0 by (rule mult_right_mono)
  then have "P \<le> 1000000000000000 * T" by (simp add: P_def)
  with T0 have "3 * P / 9007199254740992 \<le> T / 2" by linarith
  then show ?thesis by (simp add: P_def)
qed

lemma binary64_sum_error:
  fixes xs :: "rat list"
  assumes "\<forall>x\<in>set xs. x = 0 \<or> 1 / 100 \<le> x"
    and "of_nat (length xs) * sum_list xs \<le> 10 ^ 13"
  shows "\<exists>v. foldl (\<lambda>s x. plus_js s (round_double x)) (Num 0) xs = Num v \<and>
           \<bar>v - sum_list xs\<bar> \<le> 3 * (of_nat (length xs) * sum_list xs) / 2 ^ 53"
  using assms
proof (induction xs rule: rev_induct)
  case Nil
  show ?case by simp
next
  case (snoc x xs)
  define n :: rat where "n = of_nat (length xs)"
  define T where "T = sum_list xs"
  define P where "P = n * T"
  define Q where "Q = n * x"
  have n: "0 \<le> n" by (simp add: n_def)
  from snoc.prems(1) have xs: "\<forall>y\<in>set xs. y = 0 \<or> 1 / 100 \<le> y" and x: "x = 0 \<or> 1 / 100 \<le> x"
    by simp_all
  from x have x0: "0 \<le> x" by auto
  from sum_list_hundredths [OF xs] have T0: "0 \<le> T" and T: "T = 0 \<or> 1 / 100 \<le> T"
    by (simp_all add: T_def)
  from sum_list_hundredths [OF snoc.prems(1)] have T': "T + x = 0 \<or> 1 / 100 \<le> T + x"
    by (simp add: T_def)
  have P0: "0 \<le> P" and Q0: "0 \<le> Q" using n T0 x0 by (simp_all add: P_def Q_def)
  have "of_nat (length (xs @ [x])) * sum_list (xs @ [x]) = (n + 1) * (T + x)"
    by (simp add: n_def T_def)
  also have "\<dots> = P + Q + T + x" by (simp add: P_def Q_def algebra_simps)
  finally have total: "of_nat (length (xs @ [x])) * sum_list (xs @ [x]) = P + Q + T + x" .
  with snoc.prems(2) have bound: "P + Q + T + x \<le> 10 ^ 13" by simp
  with P0 Q0 T0 x0 have P13: "P \<le> 10 ^ 13" and T13: "T + x \<le> 10 ^ 13" by linarith+
  from P13 have nT: "of_nat (length xs) * sum_list xs \<le> 10 ^ 13" by (simp add: P_def n_def T_def)
  define E where "E = 3 * P / 2 ^ 53"
  define F where "F = x / 2 ^ 53"
  from snoc.IH [OF xs nT] obtain v where
    v: "foldl (\<lambda>s x. plus_js s (round_double x)) (Num 0) xs = Num v"
    and ev: "\<bar>v - T\<bar> \<le> E"
    by (auto simp: P_def n_def T_def E_def)
  have half: "E \<le> T / 2"
    using error_below_half [OF n T] P13 by (simp add: E_def P_def)
  have tiny: "pow2 (- 1022) \<le> 1 / 200" by (simp add: pow2_def)
  have "\<exists>a. round_double x = Num a \<and> \<bar>a - x\<bar> \<le> x / 2 ^ 53"
  proof (cases "x = 0")
    case True
    then show ?thesis by (simp add: round_double_zero)
  next
    case False
    with x have "1 / 100 \<le> x" by simp
    with tiny have "pow2 (- 1022) \<le> x" by linarith
    moreover from T13 T0 have "x \<le> 10 ^ 13" by linarith
    then have "x < 2 ^ 1023" by simp
    ultimately show ?thesis by (rule round_double_error)
  qed
  then obtain a where a: "round_double x = Num a" and ea: "\<bar>a - x\<bar> \<le> F"
    unfolding F_def by blast
  have xh: "F \<le> x / 2" using x0 by (simp add: F_def)
  define z where "z = v + a"
  from ev ea half xh T0 x0 z_def have zlo: "T + x \<le> 2 * z" and zhi: "z \<le> 2 * T + 2 * x"
    by linarith+
  define G where "G = z / 2 ^ 53"
  have "\<exists>w. round_double z = Num w \<and> \<bar>w - z\<bar> \<le> z / 2 ^ 53"
  proof (cases "z = 0")
    case True
    then show ?thesis by (simp add: round_double_zero)
  next
    case False
    with zlo T0 x0 have "0 < z" by linarith
    with zhi have "T + x \<noteq> 0" by linarith
    with T' have "1 / 100 \<le> T + x" by simp
    with zlo tiny have "pow2 (- 1022) \<le> z" by linarith
    moreover from zhi T13 have "z \<le> 2 * 10 ^ 13" by linarith
    then have "z < 2 ^ 1023" by simp
    ultimately show ?thesis by (rule round_double_error)
  qed
  then obtain w where w: "round_double z = Num w" and ew: "\<bar>w - z\<bar> \<le> G"
    unfolding G_def by blast
  from zhi have "z / 2 ^ 53 \<le> (2 * T + 2 * x) / 2 ^ 53" by (simp add: divide_right_mono)
  also have "\<dots> = 2 * (T / 2 ^ 53) + 2 * F" by (simp add: F_def add_divide_distrib)
  finally have G: "G \<le> 2 * (T / 2 ^ 53) + 2 * F" by (simp only: G_def)
  define H where "H = T / 2 ^ 53"
  have "3 * (P + Q + T + x) / 2 ^ 53 = E + 3 * (Q / 2 ^ 53) + 3 * H + 3 * F"
    by (simp add: E_def F_def H_def add_divide_distrib)
  moreover have "0 \<le> Q / 2 ^ 53" "0 \<le> H" using Q0 T0 by (simp_all add: H_def)
  moreover note G [folded H_def] ew ev ea
  moreover have "0 \<le> F" using x0 by (simp add: F_def)
  moreover note z_def
  ultimately have "\<bar>w - (T + x)\<bar> \<le> 3 * (P + Q + T + x) / 2 ^ 53"
    by linarith
  then have "\<bar>w - sum_list (xs @ [x])\<bar> \<le>
      3 * (of_nat (length (xs @ [x])) * sum_list (xs @ [x])) / 2 ^ 53"
    by (simp only: total) (simp add: T_def)
  moreover have "foldl (\<lambda>s x. plus_js s (round_double x)) (Num 0) (xs @ [x]) = Num w"
    by (simp add: v a w [unfolded z_def])
  ultimately show ?case by blast
qed

lemma sum_list_Ints:
  fixes xs :: "rat list"
  assumes "\<forall>x\<in>set xs. of_int \<lfloor>100 * x\<rfloor> = 100 * x"
  shows "of_int \<lfloor>100 * sum_list xs\<rfloor> = 100 * sum_list xs"
  using assms
proof (induction xs)
  case Nil
  show ?case by simp
next
  case (Cons x xs)
  then have "of_int \<lfloor>100 * x\<rfloor> = 100 * x" "of_int \<lfloor>100 * sum_list xs\<rfloor> = 100 * sum_list xs"
    by simp_all
  note ab = this
  have "100 * sum_list (x # xs) = 100 * x + 100 * sum_list xs" by (simp add: algebra_simps)
  also have "\<dots> = of_int \<lfloor>100 * x\<rfloor> + of_int \<lfloor>100 * sum_list xs\<rfloor>"
    by (simp only: ab)
  also have "\<dots> = of_int (\<lfloor>100 * x\<rfloor> + \<lfloor>100 * sum_list xs\<rfloor>)" by simp
  finally have e: "100 * sum_list (x # xs) = of_int (\<lfloor>100 * x\<rfloor> + \<lfloor>100 * sum_list xs\<rfloor>)" .
  show ?case by (simp only: e floor_of_int)
qed

lemma toFixed_binary64_sum:
  fixes xs :: "rat list"
  assumes h: "\<forall>x\<in>set xs. 0 \<le> x \<and> of_int \<lfloor>100 * x\<rfloor> = 100 * x"
    and b: "of_nat (length xs) * sum_list xs \<le> 10 ^ 13"
  shows "toFixed (foldl (\<lambda>s x. plus_js s (round_double x)) (Num 0) xs) 2 =
           decimal_2 \<lfloor>100 * sum_list xs\<rfloor> \<and>
         of_int \<lfloor>100 * sum_list xs\<rfloor> = 100 * sum_list xs"
proof -
  define T where "T = sum_list xs"
  define n :: rat where "n = of_nat (length xs)"
  define c where "c = \<lfloor>100 * T\<rfloor>"
  have small: "\<forall>x\<in>set xs. x = 0 \<or> 1 / 100 \<le> x"
  proof
    fix x assume "x \<in> set xs"
    with h have x: "0 \<le> x" "of_int \<lfloor>100 * x\<rfloor> = 100 * x" by simp_all
    show "x = 0 \<or> 1 / 100 \<le> x"
    proof (cases "\<lfloor>100 * x\<rfloor> \<le> 0")
      case True
      then have "(of_int \<lfloor>100 * x\<rfloor> :: rat) \<le> 0" by simp
      then have "100 * x \<le> 0" by (simp only: x(2))
      with x(1) show ?thesis by simp
    next
      case False
      then have "1 \<le> \<lfloor>100 * x\<rfloor>" by simp
      then have "(1 :: rat) \<le> of_int \<lfloor>100 * x\<rfloor>" by simp
      then have "1 \<le> 100 * x" by (simp only: x(2))
      then show ?thesis by simp
    qed
  qed
  from sum_list_hundredths [OF small] have T0: "0 \<le> T" and T: "T = 0 \<or> 1 / 100 \<le> T"
    by (simp_all add: T_def)
  from h have cT: "of_int c = 100 * T"
    unfolding c_def T_def by (intro sum_list_Ints) simp
  from T0 have c0: "0 \<le> c" by (simp add: c_def)
  from binary64_sum_error [OF small b] obtain v where
    v: "foldl (\<lambda>s x. plus_js s (round_double x)) (Num 0) xs = Num v"
    and ev: "\<bar>v - T\<bar> \<le> 3 * (n * T) / 2 ^ 53"
    by (auto simp: T_def n_def)
  have n0: "0 \<le> n" by (simp add: n_def)
  from b have nT: "n * T \<le> 10 ^ 13" by (simp add: n_def T_def)
  from error_below_half [OF n0 T nT] ev T0 have v0: "0 \<le> v" by linarith
  define P where "P = n * T"
  from nT have "P \<le> 10000000000000" by (simp add: P_def)
  then have "3 * P / 9007199254740992 < 1 / 200" by linarith
  then have "3 * (n * T) / 2 ^ 53 < 1 / 200" by (simp add: P_def)
  with ev have close: "\<bar>v - T\<bar> < 1 / 200" by linarith
  have T13: "T \<le> 10 ^ 13"
  proof (cases xs)
    case Nil
    then show ?thesis by (simp add: T_def)
  next
    case (Cons y ys)
    then have "1 \<le> n" by (simp add: n_def)
    then have "1 * T \<le> n * T" using T0 by (rule mult_right_mono)
    with nT show ?thesis by simp
  qed
  from close have "T - 1 / 200 < v" "v < T + 1 / 200" by linarith+
  then have "100 * T \<le> v * 100 + 1 / 2" "v * 100 + 1 / 2 < 100 * T + 1" by linarith+
  then have "of_int c \<le> v * 10 ^ 2 + 1 / 2" "v * 10 ^ 2 + 1 / 2 < of_int c + 1"
    by (simp_all add: cT)
  then have fl: "\<lfloor>v * 10 ^ 2 + 1 / 2\<rfloor> = c" by (rule floor_unique)
  have "v < 10 ^ 21"
  proof -
    from T13 have "T \<le> 10000000000000" by simp
    with close have "v < 10000000000001" by linarith
    also have "\<dots> < 10 ^ 21" by simp
    finally show ?thesis .
  qed
  with v0 have "toFixed (Num v) 2 = fixed_digits False v 2"
    by (simp add: toFixed_def)
  also have "\<dots> = decimal_2 c"
    using c0 fl by (rule fixed_digits_2)
  finally show ?thesis
    using cT by (simp add: v c_def T_def)
qed

lemma total_of_exact:
  assumes "within_precision ty ts"
  shows "toFixed (total_of ty ts) 2 = decimal_2 \<lfloor>100 * exact_total ty ts\<rfloor> \<and>
         of_int \<lfloor>100 * exact_total ty ts\<rfloor> = 100 * exact_total ty ts"
proof -
  let ?fs = "filter (\<lambda>t. t_type t = ty) ts"
  let ?val = "\<lambda>t. case unsigned_decimal (t_amount t) of None \<Rightarrow> 0 | Some x \<Rightarrow> x"
  from assms have wh: "t \<in> set ?fs \<Longrightarrow> whole_hundredths (t_amount t)" for t
    by (simp add: within_precision_def list_all_iff)
  have parse: "Number_js (t_amount t) = round_double (?val t)" if "t \<in> set ?fs" for t
    using wh [OF that] by (auto simp: whole_hundredths_def Number_js_unsigned split: option.splits)
  have vals: "\<forall>x\<in>set (map ?val ?fs). 0 \<le> x \<and> of_int \<lfloor>100 * x\<rfloor> = 100 * x"
  proof
    fix x assume "x \<in> set (map ?val ?fs)"
    then obtain t where t: "t \<in> set ?fs" "x = ?val t" by auto
    from wh [OF t(1)] t(2) show "0 \<le> x \<and> of_int \<lfloor>100 * x\<rfloor> = 100 * x"
      by (auto simp: whole_hundredths_def unsigned_decimal_nonneg split: option.splits)
  qed
  have "total_of ty ts = foldl (\<lambda>s t. plus_js s (round_double (?val t))) (Num 0) ?fs"
    unfolding total_of_def by (rule foldl_cong) (simp_all add: parse)
  also have "\<dots> = foldl (\<lambda>s x. plus_js s (round_double x)) (Num 0) (map ?val ?fs)"
    by (simp add: foldl_map)
  finally have 1: "total_of ty ts = foldl (\<lambda>s x. plus_js s (round_double x)) (Num 0) (map ?val ?fs)" .
  have 2: "exact_total ty ts = sum_list (map ?val ?fs)" by (simp add: exact_total_def)
  from assms have "of_nat (length (map ?val ?fs)) * sum_list (map ?val ?fs) \<le> 10 ^ 13"
    by (simp add: within_precision_def exact_total_def)
  from toFixed_binary64_sum [OF vals this] show ?thesis
    unfolding 1 2 .
qed

section \<open>The claims\<close>

subsection \<open>C1: the totals after a mutation\<close>




subsection \<open>C2: sequences of mutations in one category\<close>

text \<open>
  C2, as amended. Let a sequence of creates, updates and deletes by one owner, all in one
  category and in one month, begin with a create in a well-formed storage. After the
  sequence there is exactly one totals row for the owner, the category and the month. Its
  expenses (resp. gains) are \<^verbatim>\<open>toFixed(2)\<close> of the sum, in binary64 arithmetic and starting
  from 0, of \<^verbatim>\<open>Number(amount)\<close> over the owner's transactions of that category and type
  then stored whose occurred-at falls in the month. They are the exact decimal sum of
  those amounts, written with two decimals, whenever each of the amounts is a whole number
  of hundredths and the number of the amounts times their exact sum is at most \<open>10\<^sup>1\<^sup>3\<close>.
\<close>

theorem C2_exact_totals:
  assumes "well_formed s" and "i_category tr = c"
    and "all_in_category now u c xs (snd (createTransaction now newId mdId u tr s))"
  shows "\<exists>r. rows now u c (run u (Create now newId mdId tr # xs) s) = [r] \<and>
           (\<forall>ty. row_field ty r =
                   toFixed (total_of ty
                     (month_transactions now u c (run u (Create now newId mdId tr # xs) s))) 2 \<and>
                 (within_precision ty
                     (month_transactions now u c (run u (Create now newId mdId tr # xs) s)) \<longrightarrow>
                  row_field ty r =
                    decimal_2 \<lfloor>100 * exact_total ty
                      (month_transactions now u c (run u (Create now newId mdId tr # xs) s))\<rfloor> \<and>
                  of_int \<lfloor>100 * exact_total ty
                      (month_transactions now u c (run u (Create now newId mdId tr # xs) s))\<rfloor> =
                    100 * exact_total ty
                      (month_transactions now u c (run u (Create now newId mdId tr # xs) s))))"
proof -
  let ?s = "snd (createTransaction now newId mdId u tr s)"
  let ?ts = "month_transactions now u c (run u (Create now newId mdId tr # xs) s)"
  have "well_formed ?s"
    using apply_operation_wf [OF assms(1), of u "Create now newId mdId tr"] by simp
  moreover have "totals_match now u c ?s"
    using createTransaction_totals_match [OF assms(1), of now u tr newId mdId] assms(2) by simp
  ultimately have "totals_match now u c (run u xs ?s)"
    using assms(3) by (rule run_totals_match)
  then obtain r where r: "rows now u c (run u (Create now newId mdId tr # xs) s) = [r]"
    "md_gastos r = toFixed (total_of expense ?ts) 2" "md_receita r = toFixed (total_of gain ?ts) 2"
    by (auto simp: totals_match_def split: list.splits)
  have f: "row_field ty r = toFixed (total_of ty ?ts) 2" for ty
    using r(2,3) by (cases ty) simp_all
  show ?thesis
    using r(1) f total_of_exact [of _ ?ts] by (intro exI [of _ r]) simp
qed

theorem C2_witness:
  "well_formed new_MemStorage \<and> i_category (purchase ''0.10'') = plr_nacional \<and>
   all_in_category november ''u1'' plr_nacional bookkeeping
     (snd (createTransaction november ''t1'' ''m1'' ''u1'' (purchase ''0.10'') new_MemStorage)) \<and>
   map (\<lambda>t. (t_id t, t_type t, t_amount t))
     (month_transactions november ''u1'' plr_nacional
        (run ''u1'' (Create november ''t1'' ''m1'' (purchase ''0.10'') # bookkeeping) new_MemStorage)) =
     [(''t2'', expense, ''0.20''), (''t3'', gain, ''120.00''), (''t4'', expense, ''75.50'')] \<and>
   within_precision expense
     (month_transactions november ''u1'' plr_nacional
        (run ''u1'' (Create november ''t1'' ''m1'' (purchase ''0.10'') # bookkeeping) new_MemStorage)) \<and>
   within_precision gain
     (month_transactions november ''u1'' plr_nacional
        (run ''u1'' (Create november ''t1'' ''m1'' (purchase ''0.10'') # bookkeeping) new_MemStorage)) \<and>
   map (\<lambda>d. (md_gastos d, md_receita d))
     (rows november ''u1'' plr_nacional
        (run ''u1'' (Create november ''t1'' ''m1'' (purchase ''0.10'') # bookkeeping) new_MemStorage)) =
     [(''75.70'', ''120.00'')] \<and>
   decimal_2 \<lfloor>100 * exact_total expense
     (month_transactions november ''u1'' plr_nacional
        (run ''u1'' (Create november ''t1'' ''m1'' (purchase ''0.10'') # bookkeeping) new_MemStorage))\<rfloor> =
     ''75.70''"
proof -
  define S where
    "S = run ''u1'' (Create november ''t1'' ''m1'' (purchase ''0.10'') # bookkeeping) new_MemStorage"
  have h: "well_formed new_MemStorage" "i_category (purchase ''0.10'') = plr_nacional"
    by code_simp+
  have a: "all_in_category november ''u1'' plr_nacional bookkeeping
     (snd (createTransaction november ''t1'' ''m1'' ''u1'' (purchase ''0.10'') new_MemStorage))"
    by code_simp
  have ts: "map (\<lambda>t. (t_id t, t_type t, t_amount t)) (month_transactions november ''u1'' plr_nacional S) =
     [(''t2'', expense, ''0.20''), (''t3'', gain, ''120.00''), (''t4'', expense, ''75.50'')]"
    unfolding S_def by code_simp
  have p: "within_precision expense (month_transactions november ''u1'' plr_nacional S)"
    "within_precision gain (month_transactions november ''u1'' plr_nacional S)"
    unfolding S_def by code_simp+
  have ex: "map (\<lambda>d. (md_gastos d, md_receita d)) (rows november ''u1'' plr_nacional S) =
     [(''75.70'', ''120.00'')]"
    unfolding S_def by code_simp
  from C2_exact_totals [OF h a, folded S_def] obtain r where
    r: "rows november ''u1'' plr_nacional S = [r]"
    and f: "within_precision expense (month_transactions november ''u1'' plr_nacional S) \<longrightarrow>
      row_field expense r =
        decimal_2 \<lfloor>100 * exact_total expense (month_transactions november ''u1'' plr_nacional S)\<rfloor>"
    by blast
  from ex have "md_gastos r = ''75.70''" unfolding r by simp
  with f p(1) have "decimal_2 \<lfloor>100 * exact_total expense
      (month_transactions november ''u1'' plr_nacional S)\<rfloor> = ''75.70''"
    by simp
  with h a ts p ex show ?thesis unfolding S_def by blast
qed

text \<open>
  C2 as stated fails: the sums are binary64 sums, and beyond the bound they differ from
  the exact ones. One expense of 9007199254740993.00 (\<open>2\<^sup>5\<^sup>3 + 1\<close>, which \<^verbatim>\<open>Number\<close> rounds
  to \<open>2\<^sup>5\<^sup>3\<close>) gives the total \<^verbatim>\<open>"9007199254740992.00"\<close>, one less than the exact decimal
  sum.
\<close>

theorem C2_counterexample:
  "map md_gastos
     (rows november ''u1'' plr_nacional
        (snd (createTransaction november ''t1'' ''m1'' ''u1'' (purchase ''9007199254740993.00'') new_MemStorage))) =
     [''9007199254740992.00''] \<and>
   whole_hundredths ''9007199254740993.00'' \<and>
   exact_total expense
     (month_transactions november ''u1'' plr_nacional
        (snd (createTransaction november ''t1'' ''m1'' ''u1'' (purchase ''9007199254740993.00'') new_MemStorage))) =
     9007199254740993 \<and>
   decimal_2 \<lfloor>100 * (9007199254740993 :: rat)\<rfloor> = ''9007199254740993.00''"
  by code_simp

subsection \<open>C3: the round trip\<close>

text \<open>
  C3, as amended. In a well-formed storage let the owner have no transaction of the new
  transaction's category in the current month, and let the transaction occur in that
  month. After \<^verbatim>\<open>createTransaction\<close> and a \<^verbatim>\<open>closeMonth\<close> in the same month (with new
  identifiers) the history row of the close belongs to the owner and the month. Its field
  for the transaction's category and type is \<^verbatim>\<open>Number(amount).toFixed(2)\<close> (the sum
  \<^verbatim>\<open>0 + Number(amount)\<close>), which is the amount itself whenever the amount is written as
  digits, a point and two decimals and is below \<open>10\<^sup>8\<close> (the column type
  \<^verbatim>\<open>decimal(10, 2)\<close>); the field of the other type of that category is \<^verbatim>\<open>"0.00"\<close>. The
  fields of each other category hold the totals of its row as they were before the
  create, and \<^verbatim>\<open>"0"\<close> when the category has no row. A following \<^verbatim>\<open>getCurrentMonthData\<close>
  in the same month returns the three categories with expenses and gains \<^verbatim>\<open>"0"\<close>.
\<close>

theorem C3_round_trip:
  assumes "well_formed s" and "mdId \<notin> set (map fst (monthlyData s))"
    and "month_transactions now u (i_category tr) s = []"
    and "case i_occurredAt tr of None \<Rightarrow> True
         | Some d \<Rightarrow> getMonth d + 1 = currentMonth now \<and> getFullYear d = currentYear now"
    and "fresh gen (snd (createTransaction now newId mdId u tr s))"
    and "same_month now' now" and "same_month now'' now"
  shows "(\<exists>hist.
            map_of (monthlyHistory
              (closeMonth now' gen h u (snd (createTransaction now newId mdId u tr s)))) h = Some hist \<and>
            mh_userId hist = u \<and> mh_month hist = currentMonth now \<and> mh_year hist = currentYear now \<and>
            history_field (i_category tr) (i_type tr) hist =
              toFixed (plus_js (Num 0) (Number_js (i_amount tr))) 2 \<and>
            (\<forall>c. 0 \<le> c \<and> c < 10 ^ 10 \<and> i_amount tr = decimal_2 c \<longrightarrow>
               history_field (i_category tr) (i_type tr) hist = i_amount tr) \<and>
            (\<forall>k. k \<noteq> i_type tr \<longrightarrow> history_field (i_category tr) k hist = ''0.00'') \<and>
            (\<forall>c k. c \<noteq> i_category tr \<longrightarrow>
               history_field c k hist = snapshot (row_field k) (rows now u c s))) \<and>
         fst (getCurrentMonthData now'' gen' u
           (closeMonth now' gen h u (snd (createTransaction now newId mdId u tr s)))) =
           [zero_row now'' u plr_nacional (gen' 0), zero_row now'' u plr_internacional (gen' 1),
            zero_row now'' u marca_roupas (gen' 2)]"
proof -
  let ?s1 = "snd (createTransaction now newId mdId u tr s)"
  have wf1: "well_formed ?s1"
    using apply_operation_wf [OF assms(1), of u "Create now newId mdId tr"] by simp
  have "existingData now' u (closeMonth now' gen h u ?s1) = []"
    using wf1 assms(5) by (rule closeMonth_existing_empty)
  moreover from assms(6,7) have "existingData now'' u (closeMonth now' gen h u ?s1) =
      existingData now' u (closeMonth now' gen h u ?s1)"
    by (intro existingData_same_month) (simp_all add: same_month_def)
  ultimately have "existingData now'' u (closeMonth now' gen h u ?s1) = []" by simp
  then have read: "fst (getCurrentMonthData now'' gen' u (closeMonth now' gen h u ?s1)) =
      [zero_row now'' u plr_nacional (gen' 0), zero_row now'' u plr_internacional (gen' 1),
       zero_row now'' u marca_roupas (gen' 2)]"
    by (rule getCurrentMonthData_empty)
  from assms(6) have sm: "rows now' u c ?s1 = rows now u c ?s1" for c
    by (simp add: same_month_def rows_def existingData_def)
  have other: "rows now u c ?s1 = rows now u c s" if "c \<noteq> i_category tr" for c
    using assms(1,2) that by (intro createTransaction_other_rows) simp_all
  have own: "snapshot (row_field k) (rows now u (i_category tr) ?s1) =
      toFixed (if i_type tr = k then plus_js (Num 0) (Number_js (i_amount tr)) else Num 0) 2" for k
    using createTransaction_only [OF assms(1,3,4), of newId mdId k]
    by (auto simp: snapshot_def or_zero_toFixed)
  let ?hist = "\<lparr>mh_id = h, mh_userId = u, mh_month = currentMonth now', mh_year = currentYear now',
        plrNacionalGastos = snapshot md_gastos (rows now' u plr_nacional ?s1),
        plrNacionalReceita = snapshot md_receita (rows now' u plr_nacional ?s1),
        plrInternacionalGastos = snapshot md_gastos (rows now' u plr_internacional ?s1),
        plrInternacionalReceita = snapshot md_receita (rows now' u plr_internacional ?s1),
        marcaRoupasGastos = snapshot md_gastos (rows now' u marca_roupas ?s1),
        marcaRoupasReceita = snapshot md_receita (rows now' u marca_roupas ?s1),
        closedAt = now'\<rparr>"
  have field: "history_field c k ?hist = snapshot (row_field k) (rows now u c ?s1)" for c k
    by (cases c; cases k) (simp_all add: sm)
  have 0: "map_of (monthlyHistory (closeMonth now' gen h u ?s1)) h = Some ?hist"
    by (rule closeMonth_snapshot)
  have 1: "mh_userId ?hist = u \<and> mh_month ?hist = currentMonth now \<and> mh_year ?hist = currentYear now"
    using assms(6) by (simp add: same_month_def)
  have 2: "history_field (i_category tr) (i_type tr) ?hist =
      toFixed (plus_js (Num 0) (Number_js (i_amount tr))) 2"
    unfolding field own by simp
  have 3: "\<forall>c. 0 \<le> c \<and> c < 10 ^ 10 \<and> i_amount tr = decimal_2 c \<longrightarrow>
      history_field (i_category tr) (i_type tr) ?hist = i_amount tr"
    unfolding 2 by (auto simp: toFixed_Number_decimal_2)
  have 4: "\<forall>k. k \<noteq> i_type tr \<longrightarrow> history_field (i_category tr) k ?hist = ''0.00''"
    unfolding field own by (auto simp: toFixed_zero)
  have 5: "\<forall>c k. c \<noteq> i_category tr \<longrightarrow>
      history_field c k ?hist = snapshot (row_field k) (rows now u c s)"
    unfolding field by (simp add: other)
  from 0 1 2 3 4 5 read show ?thesis by blast
qed

theorem C3_witness:
  "well_formed dashboard_read \<and> ''m2'' \<notin> set (map fst (monthlyData dashboard_read)) \<and>
   month_transactions november ''u1'' (i_category boutique_sale) dashboard_read = [] \<and>
   i_occurredAt boutique_sale = None \<and>
   i_amount boutique_sale = decimal_2 1990 \<and>
   fresh more_ids (snd (createTransaction november ''t2'' ''m2'' ''u1'' boutique_sale dashboard_read)) \<and>
   same_month later_in_november november \<and>
   map (\<lambda>h. (mh_month h, mh_year h, plrNacionalGastos h, plrNacionalReceita h,
             plrInternacionalGastos h, plrInternacionalReceita h, marcaRoupasGastos h,
             marcaRoupasReceita h))
     (Map_values (monthlyHistory (closeMonth later_in_november more_ids ''h1'' ''u1''
        (snd (createTransaction november ''t2'' ''m2'' ''u1'' boutique_sale dashboard_read))))) =
     [(11, 2026, ''50.00'', ''0.00'', ''0'', ''0'', ''0.00'', ''19.90'')] \<and>
   fst (getCurrentMonthData later_in_november ids ''u1''
     (closeMonth later_in_november more_ids ''h1'' ''u1''
        (snd (createTransaction november ''t2'' ''m2'' ''u1'' boutique_sale dashboard_read)))) =
     [zero_row later_in_november ''u1'' plr_nacional (ids 0),
      zero_row later_in_november ''u1'' plr_internacional (ids 1),
      zero_row later_in_november ''u1'' marca_roupas (ids 2)]"
proof -
  have h: "well_formed dashboard_read" "''m2'' \<notin> set (map fst (monthlyData dashboard_read))"
    "month_transactions november ''u1'' (i_category boutique_sale) dashboard_read = []"
    by code_simp+
  have o: "i_occurredAt boutique_sale = None" by code_simp
  have a: "i_amount boutique_sale = decimal_2 1990" by code_simp
  from o have o': "case i_occurredAt boutique_sale of None \<Rightarrow> True
      | Some d \<Rightarrow> getMonth d + 1 = currentMonth november \<and> getFullYear d = currentYear november"
    by simp
  have f: "fresh more_ids (snd (createTransaction november ''t2'' ''m2'' ''u1'' boutique_sale dashboard_read))"
    by code_simp
  have sm: "same_month later_in_november november" by code_simp
  have ex: "map (\<lambda>h. (mh_month h, mh_year h, plrNacionalGastos h, plrNacionalReceita h,
             plrInternacionalGastos h, plrInternacionalReceita h, marcaRoupasGastos h,
             marcaRoupasReceita h))
     (Map_values (monthlyHistory (closeMonth later_in_november more_ids ''h1'' ''u1''
        (snd (createTransaction november ''t2'' ''m2'' ''u1'' boutique_sale dashboard_read))))) =
     [(11, 2026, ''50.00'', ''0.00'', ''0'', ''0'', ''0.00'', ''19.90'')]"
    by code_simp
  from C3_round_trip [OF h o' f sm sm, of "''h1''" ids] h o a f sm ex show ?thesis by blast
qed

text \<open>
  C3 as stated fails: the archived field is the amount as \<^verbatim>\<open>toFixed(2)\<close> prints its
  binary64 value. For the amount 1.005 the history holds 1.00.
\<close>

theorem C3_counterexample:
  "map plrNacionalGastos
     (Map_values (monthlyHistory (closeMonth november ids ''h1'' ''u1''
        (snd (createTransaction november ''t1'' ''m1'' ''u1'' (purchase ''1.005'') new_MemStorage))))) =
     [''1.00''] \<and>
   i_amount (purchase ''1.005'') = ''1.005''"
  by code_simp

subsection \<open>C4: closing twice\<close>

text \<open>
  C4, as amended. In a well-formed storage, with new identifiers, two \<^verbatim>\<open>closeMonth\<close> calls
  in the same month with nothing in between are both carried out (there is no rejection)
  and leave two history rows under the two identifiers. The first row holds the totals
  of the three categories as they were, with \<^verbatim>\<open>"0"\<close> for a missing row or an empty
  string. The second row has the same owner, month and year and holds \<^verbatim>\<open>"0"\<close> in all six
  fields, because the first call deleted the totals rows.
\<close>

theorem C4_second_close_archives_zeros:
  assumes "well_formed s" and "fresh gen s" and "same_month now' now" and "h1 \<noteq> h2"
  shows "map_of (monthlyHistory (closeMonth now' gen' h2 u (closeMonth now gen h1 u s))) h1 =
           Some \<lparr>mh_id = h1, mh_userId = u, mh_month = currentMonth now, mh_year = currentYear now,
              plrNacionalGastos = snapshot md_gastos (rows now u plr_nacional s),
              plrNacionalReceita = snapshot md_receita (rows now u plr_nacional s),
              plrInternacionalGastos = snapshot md_gastos (rows now u plr_internacional s),
              plrInternacionalReceita = snapshot md_receita (rows now u plr_internacional s),
              marcaRoupasGastos = snapshot md_gastos (rows now u marca_roupas s),
              marcaRoupasReceita = snapshot md_receita (rows now u marca_roupas s),
              closedAt = now\<rparr> \<and>
         map_of (monthlyHistory (closeMonth now' gen' h2 u (closeMonth now gen h1 u s))) h2 =
           Some \<lparr>mh_id = h2, mh_userId = u, mh_month = currentMonth now, mh_year = currentYear now,
              plrNacionalGastos = ''0'', plrNacionalReceita = ''0'',
              plrInternacionalGastos = ''0'', plrInternacionalReceita = ''0'',
              marcaRoupasGastos = ''0'', marcaRoupasReceita = ''0'', closedAt = now'\<rparr>"
proof -
  let ?s1 = "closeMonth now gen h1 u s"
  have r: "rows now' u c ?s1 = []" for c
    using assms(1-3) by (rule rows_after_close)
  have "map_of (monthlyHistory (closeMonth now' gen' h2 u ?s1)) h1 = map_of (monthlyHistory ?s1) h1"
    unfolding closeMonth_history [of now' gen' h2 u ?s1] update_conv' using assms(4) by simp
  then have 1: "map_of (monthlyHistory (closeMonth now' gen' h2 u ?s1)) h1 =
      Some \<lparr>mh_id = h1, mh_userId = u, mh_month = currentMonth now, mh_year = currentYear now,
              plrNacionalGastos = snapshot md_gastos (rows now u plr_nacional s),
              plrNacionalReceita = snapshot md_receita (rows now u plr_nacional s),
              plrInternacionalGastos = snapshot md_gastos (rows now u plr_internacional s),
              plrInternacionalReceita = snapshot md_receita (rows now u plr_internacional s),
              marcaRoupasGastos = snapshot md_gastos (rows now u marca_roupas s),
              marcaRoupasReceita = snapshot md_receita (rows now u marca_roupas s),
              closedAt = now\<rparr>"
    by (simp only: closeMonth_snapshot)
  from assms(3) have 2: "map_of (monthlyHistory (closeMonth now' gen' h2 u ?s1)) h2 =
      Some \<lparr>mh_id = h2, mh_userId = u, mh_month = currentMonth now, mh_year = currentYear now,
              plrNacionalGastos = ''0'', plrNacionalReceita = ''0'',
              plrInternacionalGastos = ''0'', plrInternacionalReceita = ''0'',
              marcaRoupasGastos = ''0'', marcaRoupasReceita = ''0'', closedAt = now'\<rparr>"
    by (simp only: closeMonth_snapshot r snapshot_def same_month_def list.case)
  from 1 2 show ?thesis ..
qed

theorem C4_witness:
  "well_formed one_purchase \<and> fresh ids one_purchase \<and> same_month later_in_november november \<and>
   ''h1'' \<noteq> ''h2'' \<and>
   map (\<lambda>h. (mh_id h, mh_month h, mh_year h, plrNacionalGastos h, plrNacionalReceita h,
             plrInternacionalGastos h, plrInternacionalReceita h, marcaRoupasGastos h,
             marcaRoupasReceita h))
     (Map_values (monthlyHistory
        (closeMonth later_in_november more_ids ''h2'' ''u1''
           (closeMonth november ids ''h1'' ''u1'' one_purchase)))) =
     [(''h1'', 11, 2026, ''50.00'', ''0.00'', ''0'', ''0'', ''0'', ''0''),
      (''h2'', 11, 2026, ''0'', ''0'', ''0'', ''0'', ''0'', ''0'')] \<and>
   map_of (monthlyHistory
        (closeMonth later_in_november more_ids ''h2'' ''u1''
           (closeMonth november ids ''h1'' ''u1'' one_purchase))) ''h2'' =
     Some \<lparr>mh_id = ''h2'', mh_userId = ''u1'', mh_month = currentMonth november,
        mh_year = currentYear november,
        plrNacionalGastos = ''0'', plrNacionalReceita = ''0'',
        plrInternacionalGastos = ''0'', plrInternacionalReceita = ''0'',
        marcaRoupasGastos = ''0'', marcaRoupasReceita = ''0'', closedAt = later_in_november\<rparr>"
proof -
  have h: "well_formed one_purchase" "fresh ids one_purchase" "same_month later_in_november november"
    "''h1'' \<noteq> ''h2''"
    by code_simp+
  have ex: "map (\<lambda>h. (mh_id h, mh_month h, mh_year h, plrNacionalGastos h, plrNacionalReceita h,
             plrInternacionalGastos h, plrInternacionalReceita h, marcaRoupasGastos h,
             marcaRoupasReceita h))
     (Map_values (monthlyHistory
        (closeMonth later_in_november more_ids ''h2'' ''u1''
           (closeMonth november ids ''h1'' ''u1'' one_purchase)))) =
     [(''h1'', 11, 2026, ''50.00'', ''0.00'', ''0'', ''0'', ''0'', ''0''),
      (''h2'', 11, 2026, ''0'', ''0'', ''0'', ''0'', ''0'', ''0'')]"
    by code_simp
  from h ex C4_second_close_archives_zeros [OF h, of more_ids "''u1''"] show ?thesis by blast
qed

text \<open>
  C4 as stated fails: after one expense of 50.00 the two history rows differ (50.00 in the
  first, 0 in the second), and the second call is carried out like the first.
\<close>

theorem C4_counterexample:
  "map plrNacionalGastos
     (Map_values (monthlyHistory
        (closeMonth later_in_november more_ids ''h2'' ''u1''
           (closeMonth november ids ''h1'' ''u1'' one_purchase)))) = [''50.00'', ''0'']"
  by code_simp

subsection \<open>C5: an update that changes the category\<close>

text \<open>
  C5. \<^verbatim>\<open>updateTransaction\<close> recomputes the category the transaction had before the call
  and no other. After the expense of 50.00 is moved from \<^verbatim>\<open>plr_nacional\<close> to
  \<^verbatim>\<open>marca_roupas\<close>, the row of \<^verbatim>\<open>plr_nacional\<close> is recomputed to 0.00, while the row of
  \<^verbatim>\<open>marca_roupas\<close> still holds 0 although that category now has the expense.
\<close>

theorem C5_new_category_left_stale:
  "map (\<lambda>t. (t_category t, t_type t, t_amount t))
     (month_transactions later_in_november ''u1'' marca_roupas
        (snd (updateTransaction later_in_november ''m2'' ''u1'' ''t1'' recategorise dashboard_read))) =
     [(marca_roupas, expense, ''50.00'')] \<and>
   map (\<lambda>d. (md_gastos d, md_receita d))
     (rows later_in_november ''u1'' marca_roupas
        (snd (updateTransaction later_in_november ''m2'' ''u1'' ''t1'' recategorise dashboard_read))) =
     [(''0'', ''0'')] \<and>
   \<not> totals_match later_in_november ''u1'' marca_roupas
     (snd (updateTransaction later_in_november ''m2'' ''u1'' ''t1'' recategorise dashboard_read)) \<and>
   map (\<lambda>d. (md_gastos d, md_receita d))
     (rows later_in_november ''u1'' plr_nacional
        (snd (updateTransaction later_in_november ''m2'' ''u1'' ''t1'' recategorise dashboard_read))) =
     [(''0.00'', ''0.00'')]"
  by code_simp

subsection \<open>C6: reading the current month\<close>

text \<open>
  C6. In a well-formed storage, with new identifiers from \<^verbatim>\<open>generateId\<close>,
  \<^verbatim>\<open>getCurrentMonthData\<close> returns three rows whose categories are \<^verbatim>\<open>plr_nacional\<close>,
  \<^verbatim>\<open>plr_internacional\<close>, \<^verbatim>\<open>marca_roupas\<close> in this order. The storage afterwards is the
  storage before with the returned rows that did not exist appended to \<^verbatim>\<open>monthlyData\<close>.
  Every returned row belongs to the owner and the current month and is either a row that
  existed or has expenses and gains \<^verbatim>\<open>"0"\<close>, and the returned rows are exactly the owner's
  rows of the current month that the storage then holds. This covers a storage without
  transactions or totals rows.
\<close>

theorem C6_three_rows_in_order:
  assumes "well_formed s" and "fresh gen s"
  shows "map md_category (fst (getCurrentMonthData now gen u s)) =
           [plr_nacional, plr_internacional, marca_roupas] \<and>
         snd (getCurrentMonthData now gen u s) =
           s\<lparr>monthlyData := monthlyData s @
                map (\<lambda>d. (md_id d, d))
                  (filter (\<lambda>d. d \<notin> set (existingData now u s)) (fst (getCurrentMonthData now gen u s)))\<rparr> \<and>
         (\<forall>d \<in> set (fst (getCurrentMonthData now gen u s)).
            md_userId d = u \<and> md_month d = currentMonth now \<and> md_year d = currentYear now \<and>
            (d \<in> set (existingData now u s) \<or> (md_gastos d = ''0'' \<and> md_receita d = ''0''))) \<and>
         mset (existingData now u (snd (getCurrentMonthData now gen u s))) =
           mset (fst (getCurrentMonthData now gen u s))"
  using assms by (rule getCurrentMonthData_result)

theorem C6_witness:
  "well_formed new_MemStorage \<and> fresh ids new_MemStorage \<and>
   fst (getCurrentMonthData november ids ''u1'' new_MemStorage) =
     [zero_row november ''u1'' plr_nacional ''g0'', zero_row november ''u1'' plr_internacional ''g1'',
      zero_row november ''u1'' marca_roupas ''g2''] \<and>
   map md_category (fst (getCurrentMonthData november ids ''u1'' new_MemStorage)) =
     [plr_nacional, plr_internacional, marca_roupas] \<and>
   mset (existingData november ''u1'' (snd (getCurrentMonthData november ids ''u1'' new_MemStorage))) =
     mset (fst (getCurrentMonthData november ids ''u1'' new_MemStorage)) \<and>
   well_formed one_purchase \<and> fresh ids one_purchase \<and>
   map md_id (fst (getCurrentMonthData november ids ''u1'' one_purchase)) = [''m1'', ''g0'', ''g1''] \<and>
   map md_category (fst (getCurrentMonthData november ids ''u1'' one_purchase)) =
     [plr_nacional, plr_internacional, marca_roupas]"
proof -
  have h: "well_formed new_MemStorage" "fresh ids new_MemStorage"
    "well_formed one_purchase" "fresh ids one_purchase"
    by code_simp+
  have ex: "fst (getCurrentMonthData november ids ''u1'' new_MemStorage) =
     [zero_row november ''u1'' plr_nacional ''g0'', zero_row november ''u1'' plr_internacional ''g1'',
      zero_row november ''u1'' marca_roupas ''g2'']"
    "map md_id (fst (getCurrentMonthData november ids ''u1'' one_purchase)) = [''m1'', ''g0'', ''g1'']"
    by code_simp+
  from h ex C6_three_rows_in_order [OF h(1,2), of november "''u1''"]
    C6_three_rows_in_order [OF h(3,4), of november "''u1''"]
  show ?thesis by blast
qed

subsection \<open>C7: failing updates and deletes\<close>

text \<open>
  C7. \<^verbatim>\<open>updateTransaction\<close> and \<^verbatim>\<open>deleteTransaction\<close> fail with "Transaction not found"
  whenever the identifier is not a key of the transactions, or the transaction belongs to
  another owner; the storage after the failed call is the storage before it, so every
  totals row and every transaction is unchanged.
\<close>

theorem C7_not_found_leaves_state:
  assumes "map_of (transactions s) tid = None \<or>
           (\<exists>t. map_of (transactions s) tid = Some t \<and> t_userId t \<noteq> userId)"
  shows "updateTransaction now mdId userId tid transaction s = (Inl TransactionNotFound, s) \<and>
         deleteTransaction now mdId userId tid s = (Inl TransactionNotFound, s)"
  using assms by (auto simp: updateTransaction_def deleteTransaction_def)

theorem C7_witness:
  "map_of (transactions one_purchase) ''t1'' \<noteq> None \<and>
   t_userId (the (map_of (transactions one_purchase) ''t1'')) \<noteq> ''u2'' \<and>
   updateTransaction later_in_november ''m2'' ''u2'' ''t1'' reprice one_purchase =
     (Inl TransactionNotFound, one_purchase) \<and>
   deleteTransaction later_in_november ''m2'' ''u2'' ''t1'' one_purchase =
     (Inl TransactionNotFound, one_purchase) \<and>
   map_of (transactions one_purchase) ''t9'' = None \<and>
   updateTransaction later_in_november ''m2'' ''u1'' ''t9'' reprice one_purchase =
     (Inl TransactionNotFound, one_purchase) \<and>
   deleteTransaction later_in_november ''m2'' ''u1'' ''t9'' one_purchase =
     (Inl TransactionNotFound, one_purchase)"
proof -
  have t: "map_of (transactions one_purchase) ''t1'' \<noteq> None"
    "t_userId (the (map_of (transactions one_purchase) ''t1'')) \<noteq> ''u2''"
    "map_of (transactions one_purchase) ''t9'' = None"
    by code_simp+
  from t(1,2) have "\<exists>t. map_of (transactions one_purchase) ''t1'' = Some t \<and> t_userId t \<noteq> ''u2''"
    by auto
  then have "map_of (transactions one_purchase) ''t1'' = None \<or>
      (\<exists>t. map_of (transactions one_purchase) ''t1'' = Some t \<and> t_userId t \<noteq> ''u2'')" ..
  from C7_not_found_leaves_state [OF this, of later_in_november "''m2''" reprice]
    C7_not_found_leaves_state [OF disjI1 [OF t(3)], of later_in_november "''m2''" "''u1''" reprice] t
  show ?thesis by blast
qed

subsection \<open>C8: what closing leaves alone\<close>

text \<open>
  C8. \<^verbatim>\<open>closeMonth\<close> leaves the transactions as they are. In a well-formed storage with
  new identifiers, a create, update or delete that follows the close therefore stores the
  transactions it would have stored without the close, and the totals row it writes for
  its category holds the sums over all of them that fall in the current month, those
  already archived by the close included.
\<close>

theorem C8_close_keeps_transactions:
  assumes "well_formed s" and "fresh gen s"
  shows "transactions (closeMonth now gen h u s) = transactions s \<and>
         transactions (apply_operation u x (closeMonth now gen h u s)) =
           transactions (apply_operation u x s) \<and>
         totals_match now' u (i_category tr)
           (snd (createTransaction now' newId mdId u tr (closeMonth now gen h u s))) \<and>
         (\<forall>e. map_of (transactions s) tid = Some e \<and> t_userId e = u \<longrightarrow>
            totals_match now' u (t_category e)
              (snd (updateTransaction now' mdId u tid ptr (closeMonth now gen h u s))) \<and>
            totals_match now' u (t_category e)
              (snd (deleteTransaction now' mdId u tid (closeMonth now gen h u s))))"
proof -
  have wf: "well_formed (closeMonth now gen h u s)"
    using assms by (rule closeMonth_wf)
  have tr: "transactions (closeMonth now gen h u s) = transactions s"
    by (rule closeMonth_frame)
  show ?thesis
    using createTransaction_totals_match [OF wf, of now' u tr newId mdId]
      updateTransaction_totals_match [OF wf, of tid _ u now' mdId ptr]
      deleteTransaction_totals_match [OF wf, of tid _ u now' mdId]
      apply_operation_after_close [of u x now gen h u s]
    by (simp add: tr)
qed

theorem C8_witness:
  "well_formed one_purchase \<and> fresh ids one_purchase \<and>
   transactions (closeMonth november ids ''h1'' ''u1'' one_purchase) = transactions one_purchase \<and>
   map (\<lambda>h. (plrNacionalGastos h, plrNacionalReceita h))
     (Map_values (monthlyHistory (closeMonth november ids ''h1'' ''u1'' one_purchase))) =
     [(''50.00'', ''0.00'')] \<and>
   totals_match later_in_november ''u1'' plr_nacional
     (snd (createTransaction later_in_november ''t2'' ''m2'' ''u1'' sale
        (closeMonth november ids ''h1'' ''u1'' one_purchase))) \<and>
   map (\<lambda>d. (md_gastos d, md_receita d))
     (rows later_in_november ''u1'' plr_nacional
        (snd (createTransaction later_in_november ''t2'' ''m2'' ''u1'' sale
           (closeMonth november ids ''h1'' ''u1'' one_purchase)))) = [(''50.00'', ''120.00'')]"
proof -
  have h: "well_formed one_purchase" "fresh ids one_purchase"
    by code_simp+
  have ex: "map (\<lambda>h. (plrNacionalGastos h, plrNacionalReceita h))
     (Map_values (monthlyHistory (closeMonth november ids ''h1'' ''u1'' one_purchase))) =
     [(''50.00'', ''0.00'')]"
    "map (\<lambda>d. (md_gastos d, md_receita d))
     (rows later_in_november ''u1'' plr_nacional
        (snd (createTransaction later_in_november ''t2'' ''m2'' ''u1'' sale
           (closeMonth november ids ''h1'' ''u1'' one_purchase)))) = [(''50.00'', ''120.00'')]"
    by code_simp+
  have c: "i_category sale = plr_nacional" by code_simp
  from C8_close_keeps_transactions [OF h, where now = november and h = "''h1''" and u = "''u1''"
      and now' = later_in_november and tr = sale and newId = "''t2''" and mdId = "''m2''"]
  have "transactions (closeMonth november ids ''h1'' ''u1'' one_purchase) = transactions one_purchase"
    "totals_match later_in_november ''u1'' plr_nacional
     (snd (createTransaction later_in_november ''t2'' ''m2'' ''u1'' sale
        (closeMonth november ids ''h1'' ''u1'' one_purchase)))"
    by (simp_all add: c)
  with h ex show ?thesis by blast
qed

subsection \<open>C9: the history\<close>

text \<open>
  C9. For a limit \<open>l \<ge> 0\<close>, \<^verbatim>\<open>getMonthlyHistory\<close> returns at most \<open>l\<close> records,
  namely \<open>l\<close> of them or all the owner's records when there are fewer. Every returned record
  belongs to the owner, the returned records are in descending order of year and month,
  and each of them is at least as recent as each record of the owner that is not
  returned. Without a limit the result is that of limit 12.
\<close>

theorem C9_most_recent_first:
  assumes "0 \<le> l"
  shows "int (length (getMonthlyHistory u (Some l) s)) \<le> l \<and>
         length (getMonthlyHistory u (Some l) s) =
           min (nat l) (length (filter (\<lambda>h. mh_userId h = u) (Map_values (monthlyHistory s)))) \<and>
         sorted_wrt recent (getMonthlyHistory u (Some l) s) \<and>
         (\<exists>rest. mset (getMonthlyHistory u (Some l) s) + mset rest =
                    mset (filter (\<lambda>h. mh_userId h = u) (Map_values (monthlyHistory s))) \<and>
                 (\<forall>a \<in> set (getMonthlyHistory u (Some l) s). \<forall>b \<in> set rest. recent a b)) \<and>
         getMonthlyHistory u None s = getMonthlyHistory u (Some 12) s"
proof -
  let ?hs = "filter (\<lambda>h. mh_userId h = u) (Map_values (monthlyHistory s))"
  let ?all = "sort_js by_recency ?hs"
  have r: "getMonthlyHistory u (Some l) s = take (nat l) ?all"
    using assms by (rule getMonthlyHistory_limit)
  have len: "length ?all = length ?hs"
    by (metis mset_sort_js size_mset)
  have sorted: "sorted_wrt recent ?all" by (rule sorted_sort_recent)
  have 1: "length (take (nat l) ?all) = min (nat l) (length ?hs)"
    using len by simp
  have 2: "sorted_wrt recent (take (nat l) ?all)"
    using sorted sorted_wrt_append [of recent "take (nat l) ?all" "drop (nat l) ?all"] by simp
  have "mset (take (nat l) ?all) + mset (drop (nat l) ?all) = mset ?hs"
    using mset_sort_js [of by_recency ?hs]
    by (metis append_take_drop_id mset_append)
  moreover have "\<forall>a \<in> set (take (nat l) ?all). \<forall>b \<in> set (drop (nat l) ?all). recent a b"
    using sorted_wrt_take_drop [OF sorted] by blast
  ultimately have 3: "\<exists>rest. mset (take (nat l) ?all) + mset rest = mset ?hs \<and>
      (\<forall>a \<in> set (take (nat l) ?all). \<forall>b \<in> set rest. recent a b)"
    by blast
  have 4: "getMonthlyHistory u None s = getMonthlyHistory u (Some 12) s"
    by (simp add: getMonthlyHistory_def)
  from assms 1 have "int (length (take (nat l) ?all)) \<le> l" by simp
  with 1 2 3 4 show ?thesis unfolding r by blast
qed

theorem C9_witness:
  "(0::int) \<le> 2 \<and>
   map (\<lambda>h. (mh_year h, mh_month h)) (getMonthlyHistory ''u1'' (Some 2) five_months) =
     [(2026, 10), (2026, 9)] \<and>
   int (length (getMonthlyHistory ''u1'' (Some 2) five_months)) \<le> 2 \<and>
   sorted_wrt recent (getMonthlyHistory ''u1'' (Some 2) five_months) \<and>
   length (filter (\<lambda>h. mh_userId h = ''u1'') (Map_values (monthlyHistory five_months))) = 5"
proof -
  have h: "(0::int) \<le> 2" by simp
  have ex: "map (\<lambda>h. (mh_year h, mh_month h)) (getMonthlyHistory ''u1'' (Some 2) five_months) =
     [(2026, 10), (2026, 9)]"
    "length (filter (\<lambda>h. mh_userId h = ''u1'') (Map_values (monthlyHistory five_months))) = 5"
    by code_simp+
  from h ex C9_most_recent_first [OF h, of "''u1''" five_months] show ?thesis by blast
qed

subsection \<open>C10: reading twice\<close>

text \<open>
  C10. In a well-formed storage, with new identifiers for the first call, a second
  \<^verbatim>\<open>getCurrentMonthData\<close> in the same month and year, with nothing in between, returns
  the rows the first call returned, equal in every field, and leaves the storage as the
  first call left it.
\<close>

theorem C10_idempotent:
  assumes "well_formed s" and "fresh gen s"
    and "currentMonth now' = currentMonth now" and "currentYear now' = currentYear now"
  shows "getCurrentMonthData now' gen' u (snd (getCurrentMonthData now gen u s)) =
           getCurrentMonthData now gen u s"
  using assms by (rule getCurrentMonthData_again)

theorem C10_witness:
  "well_formed one_purchase \<and> fresh ids one_purchase \<and>
   currentMonth later_in_november = currentMonth november \<and>
   currentYear later_in_november = currentYear november \<and>
   getCurrentMonthData later_in_november more_ids ''u1''
     (snd (getCurrentMonthData november ids ''u1'' one_purchase)) =
   getCurrentMonthData november ids ''u1'' one_purchase \<and>
   map (\<lambda>d. (md_category d, md_month d, md_year d, md_gastos d, md_receita d))
     (fst (getCurrentMonthData november ids ''u1'' one_purchase)) =
     [(plr_nacional, 11, 2026, ''50.00'', ''0.00''), (plr_internacional, 11, 2026, ''0'', ''0''),
      (marca_roupas, 11, 2026, ''0'', ''0'')]"
proof -
  have h: "well_formed one_purchase" "fresh ids one_purchase"
    "currentMonth later_in_november = currentMonth november"
    "currentYear later_in_november = currentYear november"
    by code_simp+
  have ex: "map (\<lambda>d. (md_category d, md_month d, md_year d, md_gastos d, md_receita d))
     (fst (getCurrentMonthData november ids ''u1'' one_purchase)) =
     [(plr_nacional, 11, 2026, ''50.00'', ''0.00''), (plr_internacional, 11, 2026, ''0'', ''0''),
      (marca_roupas, 11, 2026, ''0'', ''0'')]"
    by code_simp
  from h ex C10_idempotent [OF h, of more_ids "''u1''"] show ?thesis by blast
qed

end
